theory Spec2Isabelle
  imports Complex_Main "HOL-Library.Log_Nat"
begin

section \<open>World clock (TimeManager)\<close>

text \<open>
  The clock of \<^verbatim>\<open>server/Game/World/TimeManager.ts\<close>. Wall-clock readings, the tick
  interval and the speed multiplier are JavaScript numbers, that is IEEE 754 binary64
  values. A finite binary64 value is modelled as the rational it denotes, and every
  subtraction, multiplication and division of the source on such numbers is followed by
  the rounding to the nearest binary64 value, ties to even. Infinities and NaN are not
  modelled: results beyond the largest finite double and divisions by zero are outside
  the model. Tick counts are integers. \<^verbatim>\<open>Date.now()\<close> is an explicit argument \<open>now\<close>
  of every operation that reads it.
\<close>

text \<open>Rounding to the nearest integer, ties to the even one.\<close>

definition roundEven :: "rat \<Rightarrow> int" where
  "roundEven x =
     (let n = \<lfloor>x\<rfloor>; r = x - of_int n
      in if r < 1/2 then n else if 1/2 < r then n + 1 else if even n then n else n + 1)"

text \<open>
  The binary exponent of a positive rational: the \<open>e\<close> with \<open>2 powi e \<le> x < 2 powi (e + 1)\<close>.
\<close>

definition ilog2 :: "rat \<Rightarrow> int" where
  "ilog2 x = (if 1 \<le> x then bitlen \<lfloor>x\<rfloor> - 1 else - bitlen (\<lceil>1 / x\<rceil> - 1))"

text \<open>
  The spacing of the binary64 values around \<open>x\<close>: 53 significant bits, and the spacing
  \<open>2 powi (- 1074)\<close> of the subnormal numbers below \<open>2 powi (- 1022)\<close>.
\<close>

definition ulp :: "rat \<Rightarrow> rat" where
  "ulp x = 2 powi (max (ilog2 \<bar>x\<bar>) (- 1022) - 52)"

definition binary64 :: "rat \<Rightarrow> rat" where
  "binary64 x = (if x = 0 then 0 else of_int (roundEven (x / ulp x)) * ulp x)"

text \<open>The operators \<^verbatim>\<open>-\<close>, \<^verbatim>\<open>*\<close> and \<^verbatim>\<open>/\<close> of JavaScript on numbers.\<close>

definition js_sub :: "rat \<Rightarrow> rat \<Rightarrow> rat" where
  "js_sub a b = binary64 (a - b)"

definition js_mul :: "rat \<Rightarrow> rat \<Rightarrow> rat" where
  "js_mul a b = binary64 (a * b)"

definition js_div :: "rat \<Rightarrow> rat \<Rightarrow> rat" where
  "js_div a b = binary64 (a / b)"

datatype TimeOfDay = Dawn | Day | Dusk | Night

text \<open>
  The registered listeners are callbacks. The model keeps their number and a log of the
  calls made to them: one entry, the new phase, for each listener called. The field
  \<open>running\<close> is what \<^verbatim>\<open>isRunning()\<close> reports.
\<close>

record TimeManager =
  tick :: int
  timeOfDay :: TimeOfDay
  listeners :: nat
  notifications :: "TimeOfDay list"
  tickIntervalMs :: rat
  speedMultiplier :: rat
  lastUpdatedAt :: rat
  running :: bool

record GameTimeSnapshot =
  snap_tick :: int
  snap_timeOfDay :: TimeOfDay
  snap_speedMultiplier :: rat
  snap_tickIntervalMs :: rat
  snap_lastUpdatedAt :: "rat option"

text \<open>The remainder operator \<^verbatim>\<open>%\<close> of JavaScript truncates towards zero.\<close>

definition js_rem :: "int \<Rightarrow> int \<Rightarrow> int" where
  "js_rem a b = sgn a * (\<bar>a\<bar> mod \<bar>b\<bar>)"

definition ticksPerDay :: int where
  "ticksPerDay = 240"

definition resolvePeriod :: "int \<Rightarrow> TimeOfDay" where
  "resolvePeriod t =
     (let periodLength = (of_int ticksPerDay :: rat) / 4;
          normalized = js_rem (js_rem t ticksPerDay + ticksPerDay) ticksPerDay
      in if of_int normalized < periodLength then Dawn
         else if of_int normalized < periodLength * 2 then Day
         else if of_int normalized < periodLength * 3 then Dusk
         else Night)"

definition fire :: "TimeOfDay \<Rightarrow> TimeManager \<Rightarrow> TimeManager" where
  "fire p s = s\<lparr>notifications := notifications s @ replicate (listeners s) p\<rparr>"

definition applyTickAdvance :: "int \<Rightarrow> TimeManager \<Rightarrow> TimeManager" where
  "applyTickAdvance delta s =
     (if delta \<le> 0 then s
      else
        let prevPeriod = timeOfDay s;
            s1 = s\<lparr>tick := tick s + delta\<rparr>;
            s2 = s1\<lparr>timeOfDay := resolvePeriod (tick s1)\<rparr>
        in if timeOfDay s2 \<noteq> prevPeriod then fire (timeOfDay s2) s2 else s2)"

text \<open>
  \<^verbatim>\<open>advance(forceTicks?)\<close>: with a number it adds that many ticks and resets the time
  reference; without one it converts the time elapsed since \<open>lastUpdatedAt\<close> into whole
  ticks and moves \<open>lastUpdatedAt\<close> back by the unconverted remainder.
\<close>

definition advance :: "int option \<Rightarrow> rat \<Rightarrow> TimeManager \<Rightarrow> TimeManager" where
  "advance forceTicks now s =
     (case forceTicks of
        Some n \<Rightarrow> applyTickAdvance n (s\<lparr>lastUpdatedAt := now\<rparr>)
      | None \<Rightarrow>
          let elapsedMs = js_sub now (lastUpdatedAt s) in
          if elapsedMs \<le> 0 then s
          else
            let scaledElapsed = js_mul elapsedMs (speedMultiplier s);
                ticksToAdvance = \<lfloor>js_div scaledElapsed (tickIntervalMs s)\<rfloor>
            in if ticksToAdvance \<le> 0 then s
               else
                 let leftoverScaled =
                       js_sub scaledElapsed (js_mul (of_int ticksToAdvance) (tickIntervalMs s));
                     leftoverReal = js_div leftoverScaled (speedMultiplier s)
                 in applyTickAdvance ticksToAdvance
                      (s\<lparr>lastUpdatedAt := js_sub now leftoverReal\<rparr>))"

text \<open>
  \<^verbatim>\<open>restore(snapshot)\<close>. \<^verbatim>\<open>Date.parse(...) || Date.now()\<close> falls back to the current
  time when the stored timestamp does not parse (\<open>None\<close>) or parses to 0.
\<close>

definition restore :: "GameTimeSnapshot \<Rightarrow> rat \<Rightarrow> TimeManager \<Rightarrow> TimeManager" where
  "restore snapshot now s =
     applyTickAdvance 0
       (s\<lparr>tick := snap_tick snapshot,
          timeOfDay := snap_timeOfDay snapshot,
          speedMultiplier := snap_speedMultiplier snapshot,
          lastUpdatedAt :=
            (case snap_lastUpdatedAt snapshot of
               None \<Rightarrow> now
             | Some t \<Rightarrow> if t = 0 then now else t)\<rparr>)"

text \<open>
  \<^verbatim>\<open>start()\<close> resets the time reference and marks the clock as running. The interval
  timer it installs calls \<^verbatim>\<open>advance()\<close>; those calls are calls of \<open>advance None\<close>.
\<close>

definition start :: "rat \<Rightarrow> TimeManager \<Rightarrow> TimeManager" where
  "start now s = (if running s then s else s\<lparr>lastUpdatedAt := now, running := True\<rparr>)"

text \<open>
  The repository holds a second \<^verbatim>\<open>TimeManager\<close> class (in the file bundle
  \<^verbatim>\<open>server/Game/World/Environment.ts\<close>) that differs from the one above in
  \<^verbatim>\<open>start\<close>, \<^verbatim>\<open>stop\<close> and \<^verbatim>\<open>advance\<close>: its \<^verbatim>\<open>advance(deltaTime)\<close> takes the
  elapsed milliseconds as its argument, does nothing while the clock is not active, and
  does not touch \<open>lastUpdatedAt\<close>. Its \<^verbatim>\<open>restore\<close>, \<^verbatim>\<open>applyTickAdvance\<close> and
  \<^verbatim>\<open>resolvePeriod\<close> are the same as above.
\<close>

definition advanceDelta :: "rat \<Rightarrow> TimeManager \<Rightarrow> TimeManager" where
  "advanceDelta deltaTime s =
     (if \<not> running s then s
      else
        let scaledElapsed = js_mul deltaTime (speedMultiplier s);
            ticksToAdvance = \<lfloor>js_div scaledElapsed (tickIntervalMs s)\<rfloor>
        in if ticksToAdvance \<le> 0 then s else applyTickAdvance ticksToAdvance s)"

text \<open>
  A run of \<^verbatim>\<open>advance()\<close> calls: starting at wall-clock time \<open>t\<close>, each call comes
  after the next interval of the list has passed.
\<close>

fun advanceEach :: "rat list \<Rightarrow> rat \<Rightarrow> TimeManager \<Rightarrow> TimeManager" where
  "advanceEach [] t s = s"
| "advanceEach (d # ds) t s = advanceEach ds (t + d) (advance None (t + d) s)"

text \<open>
  The conversion of elapsed time as the specification words it, over the rationals
  without any rounding: \<open>\<lfloor>elapsed * speedMultiplier / tickIntervalMs\<rfloor>\<close> ticks, the
  remainder carried in \<open>lastUpdatedAt\<close>. It is compared with \<open>advance None\<close> below.
\<close>

definition advanceIdeal :: "rat \<Rightarrow> TimeManager \<Rightarrow> TimeManager" where
  "advanceIdeal now s =
     (let elapsedMs = now - lastUpdatedAt s in
      if elapsedMs \<le> 0 then s
      else
        let scaledElapsed = elapsedMs * speedMultiplier s;
            ticksToAdvance = \<lfloor>scaledElapsed / tickIntervalMs s\<rfloor>
        in if ticksToAdvance \<le> 0 then s
           else
             let leftoverScaled = scaledElapsed - of_int ticksToAdvance * tickIntervalMs s;
                 leftoverReal = leftoverScaled / speedMultiplier s
             in applyTickAdvance ticksToAdvance (s\<lparr>lastUpdatedAt := now - leftoverReal\<rparr>))"

fun idealEach :: "rat list \<Rightarrow> rat \<Rightarrow> TimeManager \<Rightarrow> TimeManager" where
  "idealEach [] t s = s"
| "idealEach (d # ds) t s = idealEach ds (t + d) (advanceIdeal (t + d) s)"

text \<open>
  The whole ticks that the time since \<open>lastUpdatedAt\<close> is worth, and the scaled time a
  clock stands for at wall-clock time \<open>t\<close> (ticks already counted plus the time not yet
  converted), both without rounding.
\<close>

definition ticksDue :: "rat \<Rightarrow> TimeManager \<Rightarrow> int" where
  "ticksDue now s = \<lfloor>(now - lastUpdatedAt s) * speedMultiplier s / tickIntervalMs s\<rfloor>"

definition scaledTime :: "rat \<Rightarrow> TimeManager \<Rightarrow> rat" where
  "scaledTime t s =
     of_int (tick s) * tickIntervalMs s + (t - lastUpdatedAt s) * speedMultiplier s"

text \<open>
  A call of \<^verbatim>\<open>advance()\<close> at time \<open>now\<close> is exact when none of the operations it
  performs rounds, the division that is floored apart, of which only the floor counts.
\<close>

definition exactCall :: "rat \<Rightarrow> TimeManager \<Rightarrow> bool" where
  "exactCall now s =
     (let elapsedMs = now - lastUpdatedAt s in
      binary64 elapsedMs = elapsedMs \<and>
      (if elapsedMs \<le> 0 then True
       else
         let scaledElapsed = elapsedMs * speedMultiplier s;
             ticksToAdvance = \<lfloor>scaledElapsed / tickIntervalMs s\<rfloor>
         in binary64 scaledElapsed = scaledElapsed \<and>
            \<lfloor>binary64 (scaledElapsed / tickIntervalMs s)\<rfloor> = ticksToAdvance \<and>
            (if ticksToAdvance \<le> 0 then True
             else
               let converted = of_int ticksToAdvance * tickIntervalMs s;
                   leftoverScaled = scaledElapsed - converted;
                   leftoverReal = leftoverScaled / speedMultiplier s
               in binary64 converted = converted \<and>
                  binary64 leftoverScaled = leftoverScaled \<and>
                  binary64 leftoverReal = leftoverReal \<and>
                  binary64 (now - leftoverReal) = now - leftoverReal)))"

text \<open>A run of calls is exact when each call is exact in the state it finds.\<close>

fun exactRun :: "rat list \<Rightarrow> rat \<Rightarrow> TimeManager \<Rightarrow> bool" where
  "exactRun [] t s \<longleftrightarrow> True"
| "exactRun (d # ds) t s \<longleftrightarrow>
     exactCall (t + d) s \<and> exactRun ds (t + d) (advance None (t + d) s)"

section \<open>Game loop (Game)\<close>

text \<open>
  The part of \<^verbatim>\<open>Game\<close> that drives the clock: the interval callback of
  \<^verbatim>\<open>startGameLoop\<close> measures the milliseconds since the previous iteration and hands
  them to \<^verbatim>\<open>update\<close>, whose first statement is \<^verbatim>\<open>this.timeManager.advance(deltaTime)\<close>.
  The other subsystems updated by \<^verbatim>\<open>update\<close> do not touch the clock and are left out.
  \<^verbatim>\<open>Date.now()\<close> yields whole milliseconds.
\<close>

record Game =
  timeManager :: TimeManager
  lastUpdateTime :: int

definition Game_update :: "int \<Rightarrow> int \<Rightarrow> Game \<Rightarrow> Game" where
  "Game_update deltaTime now g =
     g\<lparr>timeManager := advance (Some deltaTime) (of_int now) (timeManager g)\<rparr>"

definition gameLoopIteration :: "int \<Rightarrow> Game \<Rightarrow> Game" where
  "gameLoopIteration now g =
     (let deltaTime = now - lastUpdateTime g
      in Game_update deltaTime now (g\<lparr>lastUpdateTime := now\<rparr>))"

text \<open>The same two functions when the clock is the second \<^verbatim>\<open>TimeManager\<close> class.\<close>

definition Game_update_delta :: "int \<Rightarrow> Game \<Rightarrow> Game" where
  "Game_update_delta deltaTime g =
     g\<lparr>timeManager := advanceDelta (of_int deltaTime) (timeManager g)\<rparr>"

definition gameLoopIterationDelta :: "int \<Rightarrow> Game \<Rightarrow> Game" where
  "gameLoopIterationDelta now g =
     (let deltaTime = now - lastUpdateTime g
      in Game_update_delta deltaTime (g\<lparr>lastUpdateTime := now\<rparr>))"

text \<open>The clock as the constructor of \<^verbatim>\<open>Game\<close> builds it, with its one listener.\<close>

definition newGameClock :: "rat \<Rightarrow> TimeManager" where
  "newGameClock now =
     \<lparr>tick = 0, timeOfDay = resolvePeriod 0, listeners = 1, notifications = [],
      tickIntervalMs = 50, speedMultiplier = 1, lastUpdatedAt = now, running = False\<rparr>"

section \<open>Weather transitions (getNextWeather)\<close>

datatype WeatherType = Clear | Rain | Storm | Snow | Fog

definition WEATHER_TRANSITIONS :: "WeatherType \<Rightarrow> (WeatherType \<times> rat) list" where
  "WEATHER_TRANSITIONS w =
     (case w of
        Clear \<Rightarrow> [(Clear, 6/10), (Rain, 2/10), (Fog, 1/10), (Storm, 5/100), (Snow, 5/100)]
      | Rain \<Rightarrow> [(Rain, 5/10), (Clear, 3/10), (Storm, 15/100), (Fog, 5/100)]
      | Storm \<Rightarrow> [(Storm, 4/10), (Rain, 4/10), (Clear, 2/10)]
      | Snow \<Rightarrow> [(Snow, 5/10), (Clear, 3/10), (Fog, 2/10)]
      | Fog \<Rightarrow> [(Fog, 5/10), (Clear, 3/10), (Rain, 2/10)])"

text \<open>
  The \<^verbatim>\<open>for\<close> loop of \<^verbatim>\<open>getNextWeather\<close> with its running \<^verbatim>\<open>sum\<close> (here \<open>acc\<close>): \<open>Some\<close> is the
  \<^verbatim>\<open>return next\<close> inside the loop, \<open>None\<close> is falling out of the loop.
\<close>

fun weatherLoop :: "(WeatherType \<times> rat) list \<Rightarrow> rat \<Rightarrow> rat \<Rightarrow> WeatherType option" where
  "weatherLoop [] roll acc = None"
| "weatherLoop ((nxt, prob) # rest) roll acc =
     (let acc' = acc + prob
      in if roll \<le> acc' then Some nxt else weatherLoop rest roll acc')"

text \<open>The body of \<^verbatim>\<open>getNextWeather\<close> once the table row is looked up.\<close>

definition pickWeather :: "(WeatherType \<times> rat) list \<Rightarrow> rat \<Rightarrow> WeatherType" where
  "pickWeather transitions roll =
     (case weatherLoop transitions roll 0 of
        Some nxt \<Rightarrow> nxt
      | None \<Rightarrow> (if transitions = [] then Clear else fst (last transitions)))"

text \<open>\<^verbatim>\<open>Math.random()\<close> is the argument \<open>roll\<close>.\<close>

definition getNextWeather :: "WeatherType \<Rightarrow> rat \<Rightarrow> WeatherType" where
  "getNextWeather current roll = pickWeather (WEATHER_TRANSITIONS current) roll"

text \<open>
  The cumulative probability of entry \<open>i\<close>, added up from the left as the loop does.
\<close>

definition cumulative :: "(WeatherType \<times> rat) list \<Rightarrow> nat \<Rightarrow> rat" where
  "cumulative transitions i = foldl (+) 0 (map snd (take (Suc i) transitions))"

section \<open>Terrain grid (WorldManager)\<close>

text \<open>
  The tile grid of \<^verbatim>\<open>WorldManager\<close>. Coordinates, versions and durabilities are
  integers. An optional field of the source is an \<open>option\<close>. The presentation strings of
  a tile configuration (description, symbol, colour) play no part in the logic and are
  left out. A timestamp written by \<^verbatim>\<open>new Date().toISOString()\<close> is an argument.
\<close>

datatype TerrainType =
  GRASS | DIRT | WATER | STONE | SAND | TREE | ROCK | FARMLAND | WALL | VOID

record TileState =
  tilled :: "bool option"
  crop :: "string option"
  growthStage :: "int option"
  watered :: "bool option"
  durability :: "int option"
  lastInteractedAt :: "string option"
  otherFields :: "(string \<times> string) list"

record Tile =
  tile_type :: TerrainType
  tile_state :: "TileState option"
  tile_metadata :: "(string \<times> string) list option"
  tile_version :: "int option"

record Position2D =
  pos_x :: int
  pos_y :: int

record TileConfig =
  cfg_type :: TerrainType
  walkable :: bool
  tillable :: bool
  harvestable :: bool
  transparent :: bool

text \<open>
  A JavaScript array is a list whose elements may be missing: reading past the end or at
  a hole gives \<^verbatim>\<open>undefined\<close> (\<open>None\<close>), and writing past the end extends the array.
\<close>

definition js_get :: "'a option list \<Rightarrow> int \<Rightarrow> 'a option" where
  "js_get xs i = (if 0 \<le> i \<and> nat i < length xs then xs ! nat i else None)"

definition js_set :: "'a option list \<Rightarrow> int \<Rightarrow> 'a \<Rightarrow> 'a option list" where
  "js_set xs i v =
     (if nat i < length xs then xs[nat i := Some v]
      else xs @ replicate (nat i - length xs) None @ [Some v])"

record WorldMap =
  width :: int
  height :: int
  tiles :: "Tile option list list"

text \<open>
  The dirty set holds the keys \<^verbatim>\<open>`${pos.x},${pos.y}`\<close>; for integer coordinates such a
  key stands for exactly one pair, and the model keeps the pair.
\<close>

record WorldManager =
  worldMap :: WorldMap
  dirtyTiles :: "(int \<times> int) set"

definition tileOfType :: "TerrainType \<Rightarrow> Tile" where
  "tileOfType t =
     \<lparr>tile_type = t, tile_state = None, tile_metadata = None, tile_version = None\<rparr>"

definition mkConfig :: "TerrainType \<Rightarrow> bool \<Rightarrow> bool \<Rightarrow> bool \<Rightarrow> bool \<Rightarrow> TileConfig" where
  "mkConfig t w ti h tr =
     \<lparr>cfg_type = t, walkable = w, tillable = ti, harvestable = h, transparent = tr\<rparr>"

definition initTileConfigs :: "TerrainType \<rightharpoonup> TileConfig" where
  "initTileConfigs =
     Map.empty
       (GRASS \<mapsto> mkConfig GRASS True True False True,
        DIRT \<mapsto> mkConfig DIRT True True False True,
        WATER \<mapsto> mkConfig WATER False False False True,
        STONE \<mapsto> mkConfig STONE True False False True,
        SAND \<mapsto> mkConfig SAND True False False True,
        TREE \<mapsto> mkConfig TREE False False True False,
        ROCK \<mapsto> mkConfig ROCK False False True False,
        FARMLAND \<mapsto> mkConfig FARMLAND True False False True,
        WALL \<mapsto> mkConfig WALL False False False False,
        VOID \<mapsto> mkConfig VOID False False False True)"

definition getTileConfig :: "TerrainType \<Rightarrow> TileConfig option" where
  "getTileConfig t = initTileConfigs t"

definition isInBounds :: "WorldManager \<Rightarrow> Position2D \<Rightarrow> bool" where
  "isInBounds w pos \<longleftrightarrow>
     pos_x pos \<ge> 0 \<and> pos_x pos < width (worldMap w) \<and>
     pos_y pos \<ge> 0 \<and> pos_y pos < height (worldMap w)"

text \<open>\<^verbatim>\<open>this.worldMap.tiles[pos.y]\<close>: the row, or \<^verbatim>\<open>undefined\<close>.\<close>

definition rowAt :: "WorldManager \<Rightarrow> int \<Rightarrow> Tile option list option" where
  "rowAt w j =
     (if 0 \<le> j \<and> nat j < length (tiles (worldMap w))
      then Some (tiles (worldMap w) ! nat j) else None)"

definition getTile :: "WorldManager \<Rightarrow> Position2D \<Rightarrow> Tile" where
  "getTile w pos =
     (if \<not> isInBounds w pos then tileOfType VOID
      else
        case rowAt w (pos_y pos) of
          None \<Rightarrow> tileOfType VOID
        | Some row \<Rightarrow>
            (case js_get row (pos_x pos) of
               None \<Rightarrow> tileOfType VOID
             | Some tile \<Rightarrow> tile))"

definition getTileVersion :: "WorldManager \<Rightarrow> Position2D \<Rightarrow> int" where
  "getTileVersion w pos =
     (case tile_version (getTile w pos) of None \<Rightarrow> 0 | Some v \<Rightarrow> v)"

definition markTileDirty :: "Position2D \<Rightarrow> WorldManager \<Rightarrow> WorldManager" where
  "markTileDirty pos w = w\<lparr>dirtyTiles := insert (pos_x pos, pos_y pos) (dirtyTiles w)\<rparr>"

text \<open>\<^verbatim>\<open>currentTile?.version ?? 0\<close>\<close>

definition versionOrZero :: "Tile option \<Rightarrow> int" where
  "versionOrZero currentTile =
     (case currentTile of
        None \<Rightarrow> 0
      | Some t \<Rightarrow> (case tile_version t of None \<Rightarrow> 0 | Some v \<Rightarrow> v))"

text \<open>
  \<^verbatim>\<open>setTile(pos, tile, expectedVersion?)\<close> returns the boolean of the source together
  with the manager after the call. The version conflict only logs a warning.
\<close>

definition setTile ::
  "WorldManager \<Rightarrow> Position2D \<Rightarrow> Tile \<Rightarrow> int option \<Rightarrow> bool \<times> WorldManager" where
  "setTile w pos tile expectedVersion =
     (if \<not> isInBounds w pos then (False, w)
      else
        case rowAt w (pos_y pos) of
          None \<Rightarrow> (False, w)
        | Some row \<Rightarrow>
            let currentTile = js_get row (pos_x pos) in
            if (case expectedVersion of
                  None \<Rightarrow> False
                | Some ev \<Rightarrow> versionOrZero currentTile \<noteq> ev)
            then (False, w)
            else
              let tile' = tile\<lparr>tile_version := Some (versionOrZero currentTile + 1)\<rparr>;
                  row' = js_set row (pos_x pos) tile';
                  m = worldMap w;
                  w' = w\<lparr>worldMap := m\<lparr>tiles := (tiles m)[nat (pos_y pos) := row']\<rparr>\<rparr>
              in (True, markTileDirty pos w'))"

definition isHarvestable :: "WorldManager \<Rightarrow> Position2D \<Rightarrow> bool" where
  "isHarvestable w pos =
     (case getTileConfig (tile_type (getTile w pos)) of
        None \<Rightarrow> False
      | Some config \<Rightarrow> harvestable config)"

definition getDrops :: "TerrainType \<Rightarrow> string list" where
  "getDrops t =
     (case t of
        TREE \<Rightarrow> [''wood'', ''wood'', ''wood'']
      | ROCK \<Rightarrow> [''stone'', ''stone'', ''stone'', ''stone'', ''stone'']
      | _ \<Rightarrow> [])"

record HarvestResult =
  success :: bool
  complete :: bool
  drops :: "string list option"

definition harvestFailed :: HarvestResult where
  "harvestFailed = \<lparr>success = False, complete = False, drops = None\<rparr>"

definition harvest ::
  "WorldManager \<Rightarrow> Position2D \<Rightarrow> string \<Rightarrow> HarvestResult \<times> WorldManager" where
  "harvest w pos nowIso =
     (if \<not> isHarvestable w pos then (harvestFailed, w)
      else
        let tile = getTile w pos;
            expectedVersion = (case tile_version tile of None \<Rightarrow> 0 | Some v \<Rightarrow> v)
        in
        case tile_state tile of
          None \<Rightarrow> (harvestFailed, w)
        | Some st \<Rightarrow>
            (case durability st of
               None \<Rightarrow> (harvestFailed, w)
             | Some d \<Rightarrow>
                 let newDurability = d - 1 in
                 if newDurability \<le> 0 then
                   let ds = getDrops (tile_type tile);
                       (ok, w') = setTile w pos (tileOfType GRASS) (Some expectedVersion)
                   in if \<not> ok then (harvestFailed, w')
                      else (\<lparr>success = True, complete = True, drops = Some ds\<rparr>, w')
                 else
                   let newTile =
                         \<lparr>tile_type = tile_type tile,
                          tile_state =
                            Some (st\<lparr>durability := Some newDurability,
                                     lastInteractedAt := Some nowIso\<rparr>),
                          tile_metadata = None,
                          tile_version = None\<rparr>;
                       (ok, w') = setTile w pos newTile (Some expectedVersion)
                   in if \<not> ok then (harvestFailed, w')
                      else (\<lparr>success = True, complete = False, drops = None\<rparr>, w')))"

text \<open>
  The shape every grid built by the constructor has and every write keeps: one row for
  each \<open>y\<close> below the height.
\<close>

definition rowsPresent :: "WorldManager \<Rightarrow> bool" where
  "rowsPresent w \<longleftrightarrow> nat (height (worldMap w)) \<le> length (tiles (worldMap w))"

text \<open>Repeated harvesting of one position.\<close>

fun harvestTimes :: "nat \<Rightarrow> WorldManager \<Rightarrow> Position2D \<Rightarrow> string \<Rightarrow> HarvestResult list \<times> WorldManager" where
  "harvestTimes 0 w pos nowIso = ([], w)"
| "harvestTimes (Suc n) w pos nowIso =
     (let (r, w1) = harvest w pos nowIso;
          (rs, w2) = harvestTimes n w1 pos nowIso
      in (r # rs, w2))"

section \<open>Interactions (InteractionManager)\<close>

text \<open>
  The three other domain operations of \<^verbatim>\<open>WorldManager\<close> that the interaction handlers
  call. Each reads the version, builds the new tile and writes it with \<^verbatim>\<open>setTile\<close>
  expecting the version read.
\<close>

definition isTillable :: "WorldManager \<Rightarrow> Position2D \<Rightarrow> bool" where
  "isTillable w pos =
     (case getTileConfig (tile_type (getTile w pos)) of
        None \<Rightarrow> False
      | Some config \<Rightarrow> tillable config)"

definition emptyTileState :: TileState where
  "emptyTileState =
     \<lparr>tilled = None, crop = None, growthStage = None, watered = None, durability = None,
      lastInteractedAt = None, otherFields = []\<rparr>"

definition tillLand :: "WorldManager \<Rightarrow> Position2D \<Rightarrow> string \<Rightarrow> bool \<times> WorldManager" where
  "tillLand w pos nowIso =
     (if \<not> isTillable w pos then (False, w)
      else
        let expectedVersion = getTileVersion w pos
        in setTile w pos
             \<lparr>tile_type = FARMLAND,
              tile_state =
                Some (emptyTileState\<lparr>tilled := Some True, watered := Some False,
                                     lastInteractedAt := Some nowIso\<rparr>),
              tile_metadata = None, tile_version = None\<rparr>
             (Some expectedVersion))"

text \<open>\<^verbatim>\<open>{...tile.state, ...}\<close> of a missing state starts from no fields.\<close>

definition stateOrEmpty :: "Tile \<Rightarrow> TileState" where
  "stateOrEmpty tile = (case tile_state tile of None \<Rightarrow> emptyTileState | Some st \<Rightarrow> st)"

definition plantCrop ::
  "WorldManager \<Rightarrow> Position2D \<Rightarrow> string \<Rightarrow> string \<Rightarrow> bool \<times> WorldManager" where
  "plantCrop w pos cropId nowIso =
     (let tile = getTile w pos in
      if tile_type tile \<noteq> FARMLAND then (False, w)
      else if (case crop (stateOrEmpty tile) of None \<Rightarrow> False | Some c \<Rightarrow> c \<noteq> []) then (False, w)
      else
        let expectedVersion = (case tile_version tile of None \<Rightarrow> 0 | Some v \<Rightarrow> v);
            newTile =
              \<lparr>tile_type = tile_type tile,
               tile_state =
                 Some ((stateOrEmpty tile)\<lparr>crop := Some cropId, growthStage := Some 0,
                                            lastInteractedAt := Some nowIso\<rparr>),
               tile_metadata = None, tile_version = None\<rparr>
        in setTile w pos newTile (Some expectedVersion))"

definition waterTile :: "WorldManager \<Rightarrow> Position2D \<Rightarrow> string \<Rightarrow> bool \<times> WorldManager" where
  "waterTile w pos nowIso =
     (let tile = getTile w pos in
      if tile_type tile \<noteq> FARMLAND then (False, w)
      else
        case tile_state tile of
          None \<Rightarrow> (False, w)
        | Some st \<Rightarrow>
            let expectedVersion = (case tile_version tile of None \<Rightarrow> 0 | Some v \<Rightarrow> v);
                newTile =
                  \<lparr>tile_type = tile_type tile,
                   tile_state = Some (st\<lparr>watered := Some True, lastInteractedAt := Some nowIso\<rparr>),
                   tile_metadata = None, tile_version = None\<rparr>
            in setTile w pos newTile (Some expectedVersion))"

datatype InteractionType = TILL | PLANT | HARVEST | WATER | CHOP | MINE | LOOK

text \<open>\<open>req_cropId\<close> is \<^verbatim>\<open>request.data?.cropId\<close>.\<close>

record InteractionRequest =
  playerId :: string
  req_type :: InteractionType
  target :: Position2D
  req_cropId :: "string option"

text \<open>
  The message texts of the source are not ASCII; the model keeps which message a result
  carries. A change is the position, the action string and, for planting, the crop id.
\<close>

datatype Message =
  PlayerMissing | TooFar | UnknownInteraction
  | NotTillable | TillDone | TillFailed
  | NoCropId | NotFarmland | PlantDone | PlantFailed
  | WaterDone | WaterFailed
  | NotHarvestable | HarvestFailed | HarvestDone | HarvestGoingOn
  | ViewDescription

record InteractionResult =
  ir_success :: bool
  ir_message :: Message
  ir_changes :: "(Position2D \<times> string \<times> string option) option"
  ir_rewards :: "string list option"

definition failure :: "Message \<Rightarrow> InteractionResult" where
  "failure m = \<lparr>ir_success = False, ir_message = m, ir_changes = None, ir_rewards = None\<rparr>"

definition changed :: "Message \<Rightarrow> Position2D \<Rightarrow> string \<Rightarrow> InteractionResult" where
  "changed m pos action =
     \<lparr>ir_success = True, ir_message = m, ir_changes = Some (pos, action, None),
      ir_rewards = None\<rparr>"

definition handleTill ::
  "WorldManager \<Rightarrow> Position2D \<Rightarrow> string \<Rightarrow> InteractionResult \<times> WorldManager" where
  "handleTill w pos nowIso =
     (if \<not> isTillable w pos then (failure NotTillable, w)
      else
        let (ok, w') = tillLand w pos nowIso
        in if ok then (changed TillDone pos ''tilled'', w') else (failure TillFailed, w'))"

definition handlePlant ::
  "WorldManager \<Rightarrow> Position2D \<Rightarrow> string option \<Rightarrow> string \<Rightarrow> InteractionResult \<times> WorldManager" where
  "handlePlant w pos cropId nowIso =
     (case cropId of
        None \<Rightarrow> (failure NoCropId, w)
      | Some c \<Rightarrow>
          if c = [] then (failure NoCropId, w)
          else if tile_type (getTile w pos) \<noteq> FARMLAND then (failure NotFarmland, w)
          else
            let (ok, w') = plantCrop w pos c nowIso
            in if ok
               then (\<lparr>ir_success = True, ir_message = PlantDone,
                      ir_changes = Some (pos, ''planted'', Some c), ir_rewards = None\<rparr>, w')
               else (failure PlantFailed, w'))"

definition handleWater ::
  "WorldManager \<Rightarrow> Position2D \<Rightarrow> string \<Rightarrow> InteractionResult \<times> WorldManager" where
  "handleWater w pos nowIso =
     (let (ok, w') = waterTile w pos nowIso
      in if ok then (changed WaterDone pos ''watered'', w') else (failure WaterFailed, w'))"

definition handleHarvest ::
  "WorldManager \<Rightarrow> Position2D \<Rightarrow> string \<Rightarrow> InteractionResult \<times> WorldManager" where
  "handleHarvest w pos nowIso =
     (if \<not> isHarvestable w pos then (failure NotHarvestable, w)
      else
        let (result, w') = harvest w pos nowIso
        in if \<not> success result then (failure HarvestFailed, w')
           else if complete result \<and> drops result \<noteq> None
           then (\<lparr>ir_success = True, ir_message = HarvestDone,
                  ir_changes = Some (pos, ''harvested'', None), ir_rewards = drops result\<rparr>, w')
           else (changed HarvestGoingOn pos ''harvesting'', w'))"

text \<open>\<^verbatim>\<open>handleLook\<close> describes the view and changes nothing.\<close>

definition handleLook :: "WorldManager \<Rightarrow> Position2D \<Rightarrow> InteractionResult \<times> WorldManager" where
  "handleLook w pos =
     (\<lparr>ir_success = True, ir_message = ViewDescription, ir_changes = None, ir_rewards = None\<rparr>, w)"

record Position =
  px :: rat
  py :: rat
  pz :: rat

definition to2D :: "Position \<Rightarrow> Position2D" where
  "to2D pos3D = \<lparr>pos_x = \<lfloor>px pos3D\<rfloor>, pos_y = \<lfloor>pz pos3D\<rfloor>\<rparr>"

text \<open>
  \<^verbatim>\<open>calculateDistance(a, b) > MAX_INTERACTION_DISTANCE\<close> with the maximum 1.5: the
  square root of the whole number \<open>dx * dx + dy * dy\<close> exceeds 1.5 exactly when four times
  that number exceeds 9.
\<close>

definition beyondReach :: "Position2D \<Rightarrow> Position2D \<Rightarrow> bool" where
  "beyondReach a b =
     (let dx = pos_x a - pos_x b; dy = pos_y a - pos_y b
      in 4 * (dx * dx + dy * dy) > 9)"

text \<open>
  \<^verbatim>\<open>processInteraction\<close>. It is declared \<^verbatim>\<open>async\<close> but contains no \<^verbatim>\<open>await\<close>, and
  neither does any handler: a call runs to its end without suspending and the promise it
  returns is settled. The players known to the agent manager are a map from player id to
  position.
\<close>

definition processInteraction ::
  "(string \<rightharpoonup> Position) \<Rightarrow> WorldManager \<Rightarrow> InteractionRequest \<Rightarrow> string
     \<Rightarrow> InteractionResult \<times> WorldManager" where
  "processInteraction agents w request nowIso =
     (case agents (playerId request) of
        None \<Rightarrow> (failure PlayerMissing, w)
      | Some position \<Rightarrow>
          let playerPos = to2D position in
          if beyondReach playerPos (target request) then (failure TooFar, w)
          else
            case req_type request of
              TILL \<Rightarrow> handleTill w (target request) nowIso
            | PLANT \<Rightarrow> handlePlant w (target request) (req_cropId request) nowIso
            | InteractionType.WATER \<Rightarrow> handleWater w (target request) nowIso
            | CHOP \<Rightarrow> handleHarvest w (target request) nowIso
            | MINE \<Rightarrow> handleHarvest w (target request) nowIso
            | LOOK \<Rightarrow> handleLook w playerPos
            | HARVEST \<Rightarrow> (failure UnknownInteraction, w))"

text \<open>
  \<^verbatim>\<open>handleInteractionAsync\<close> is three stretches of code that run without suspending,
  joined by two \<^verbatim>\<open>await\<close>s. Every promise it awaits is one returned by
  \<^verbatim>\<open>processInteraction\<close> and so is already settled; the rest of the function after an
  \<^verbatim>\<open>await\<close> is then put at the end of the microtask queue. A continuation is what is
  left to run of one call: after \<^verbatim>\<open>await previousPromise\<close>, or after
  \<^verbatim>\<open>await currentPromise\<close> with the promise that call created.
\<close>

datatype Continuation =
  AfterPrevious InteractionRequest
  | AfterCurrent InteractionRequest nat

text \<open>
  The manager: the world, the players, the map from position key to the latest promise
  of that position (promises are numbered in the order of their creation), the count of
  interactions in progress, the microtask queue, and a log with one entry for each run of
  \<^verbatim>\<open>processInteraction\<close>: the request, the world the handler found, and its result. The
  key \<^verbatim>\<open>`${x},${y}`\<close> is kept as the pair.
\<close>

record InteractionManager =
  worldManager :: WorldManager
  agentPositions :: "string \<rightharpoonup> Position"
  interactionQueues :: "(int \<times> int) \<rightharpoonup> nat"
  processingCount :: int
  promisesMade :: nat
  microtasks :: "Continuation list"
  handled :: "(InteractionRequest \<times> WorldManager \<times> InteractionResult) list"

definition posKey :: "InteractionRequest \<Rightarrow> int \<times> int" where
  "posKey request = (pos_x (target request), pos_y (target request))"

text \<open>
  Second stretch: \<^verbatim>\<open>processInteraction\<close> runs, its promise becomes the entry of the
  position, the count goes up, and the call suspends at \<^verbatim>\<open>await currentPromise\<close>.
\<close>

definition startInteraction ::
  "InteractionRequest \<Rightarrow> string \<Rightarrow> InteractionManager \<Rightarrow> InteractionManager" where
  "startInteraction request nowIso s =
     (let (result, w') = processInteraction (agentPositions s) (worldManager s) request nowIso;
          currentPromise = promisesMade s
      in s\<lparr>worldManager := w',
            handled := handled s @ [(request, worldManager s, result)],
            promisesMade := Suc (promisesMade s),
            interactionQueues := (interactionQueues s)(posKey request \<mapsto> currentPromise),
            processingCount := processingCount s + 1,
            microtasks := microtasks s @ [AfterCurrent request currentPromise]\<rparr>)"

text \<open>
  First stretch, the call itself: with an entry for the position the call suspends at
  \<^verbatim>\<open>await previousPromise\<close>; without one it goes straight on into the second stretch.
\<close>

definition handleInteractionAsync ::
  "InteractionRequest \<Rightarrow> string \<Rightarrow> InteractionManager \<Rightarrow> InteractionManager" where
  "handleInteractionAsync request nowIso s =
     (case interactionQueues s (posKey request) of
        Some previousPromise \<Rightarrow> s\<lparr>microtasks := microtasks s @ [AfterPrevious request]\<rparr>
      | None \<Rightarrow> startInteraction request nowIso s)"

text \<open>Third stretch, the \<^verbatim>\<open>finally\<close> block.\<close>

definition finishInteraction ::
  "InteractionRequest \<Rightarrow> nat \<Rightarrow> InteractionManager \<Rightarrow> InteractionManager" where
  "finishInteraction request currentPromise s =
     (let s1 = s\<lparr>processingCount := processingCount s - 1\<rparr>
      in if interactionQueues s1 (posKey request) = Some currentPromise
         then s1\<lparr>interactionQueues := (interactionQueues s1)(posKey request := None)\<rparr>
         else s1)"

text \<open>The event loop runs the continuation at the head of the microtask queue.\<close>

definition runMicrotask :: "string \<Rightarrow> InteractionManager \<Rightarrow> InteractionManager" where
  "runMicrotask nowIso s =
     (case microtasks s of
        [] \<Rightarrow> s
      | c # rest \<Rightarrow>
          (case c of
             AfterPrevious request \<Rightarrow> startInteraction request nowIso (s\<lparr>microtasks := rest\<rparr>)
           | AfterCurrent request p \<Rightarrow> finishInteraction request p (s\<lparr>microtasks := rest\<rparr>)))"

text \<open>
  Several calls made one after the other without a microtask in between, a number of
  microtasks run in a row, and any sequence of calls and microtasks.
\<close>

fun callAll :: "InteractionRequest list \<Rightarrow> string \<Rightarrow> InteractionManager \<Rightarrow> InteractionManager" where
  "callAll [] nowIso s = s"
| "callAll (r # rs) nowIso s = callAll rs nowIso (handleInteractionAsync r nowIso s)"

fun runMicrotasks :: "nat \<Rightarrow> string \<Rightarrow> InteractionManager \<Rightarrow> InteractionManager" where
  "runMicrotasks 0 nowIso s = s"
| "runMicrotasks (Suc n) nowIso s = runMicrotasks n nowIso (runMicrotask nowIso s)"

datatype Event = Call InteractionRequest | Microtask

fun runEvents :: "Event list \<Rightarrow> string \<Rightarrow> InteractionManager \<Rightarrow> InteractionManager" where
  "runEvents [] nowIso s = s"
| "runEvents (Call r # es) nowIso s = runEvents es nowIso (handleInteractionAsync r nowIso s)"
| "runEvents (Microtask # es) nowIso s = runEvents es nowIso (runMicrotask nowIso s)"

text \<open>
  A log is chained from a world \<open>w\<close> to a world \<open>w'\<close> when its first handler found \<open>w\<close>,
  every later handler found the world the handler before it left, each result is the one
  \<^verbatim>\<open>processInteraction\<close> gives on the world found, and the last handler left \<open>w'\<close>.
\<close>

fun chained ::
  "(string \<rightharpoonup> Position) \<Rightarrow> string \<Rightarrow> WorldManager
     \<Rightarrow> (InteractionRequest \<times> WorldManager \<times> InteractionResult) list \<Rightarrow> WorldManager \<Rightarrow> bool" where
  "chained agents nowIso w [] w' \<longleftrightarrow> w' = w"
| "chained agents nowIso w ((r, found, result) # entries) w' \<longleftrightarrow>
     found = w \<and> result = fst (processInteraction agents w r nowIso) \<and>
     chained agents nowIso (snd (processInteraction agents w r nowIso)) entries w'"

text \<open>
  The continuations of a microtask queue that will delete the entry of a position: those
  after \<^verbatim>\<open>await currentPromise\<close> of a call for that position with that promise.
\<close>

definition entryOwned :: "InteractionManager \<Rightarrow> bool" where
  "entryOwned s \<longleftrightarrow>
     (\<forall>k p. interactionQueues s k = Some p \<longrightarrow>
        (\<exists>r. AfterCurrent r p \<in> set (microtasks s) \<and> posKey r = k))"

section \<open>Agent action queue (AgentActionQueue)\<close>

datatype ActionType = MOVE | INTERACT | ATTACK | USE_ITEM | SPEAK | IDLE

datatype ActionPriority = CRITICAL | HIGH | NORMAL | LOW

text \<open>The numeric values of the enum \<^verbatim>\<open>ActionPriority\<close>.\<close>

fun priorityValue :: "ActionPriority \<Rightarrow> nat" where
  "priorityValue CRITICAL = 0"
| "priorityValue HIGH = 1"
| "priorityValue NORMAL = 2"
| "priorityValue LOW = 3"

text \<open>
  An action. Its \<^verbatim>\<open>execute\<close> function is a deferred operation: the model records that
  it was called, in the log \<open>started\<close> of the queue manager.
\<close>

record AgentAction =
  action_id :: string
  agentId :: string
  action_type :: ActionType
  priority :: ActionPriority
  timestamp :: int
  cancellable :: bool
  timeout :: "int option"

text \<open>
  The three maps of the class, keyed by agent id. Of the lock map only the key set
  matters. \<open>started\<close> lists the ids of the actions whose \<^verbatim>\<open>execute\<close> was called, in
  call order; \<open>expired\<close> lists the ids of the actions skipped by the timeout check.
  \<open>releasing\<close> lists, in the order in which they were scheduled, the agents whose
  \<^verbatim>\<open>processQueue\<close> call waits to resume after \<^verbatim>\<open>await executionPromise\<close> with the
  loop already ended: its \<^verbatim>\<open>finally\<close> block has still to delete the lock.
\<close>

record AgentActionQueue =
  queues :: "string \<rightharpoonup> AgentAction list"
  executing :: "string \<rightharpoonup> AgentAction"
  locks :: "string set"
  started :: "string list"
  expired :: "string list"
  releasing :: "string list"


text \<open>
  The loop of \<^verbatim>\<open>insertByPriority\<close>: the index of the first entry whose priority value
  is greater than the new action's, or the length of the queue.
\<close>

fun findInsertIndex :: "nat \<Rightarrow> AgentAction list \<Rightarrow> AgentAction \<Rightarrow> nat" where
  "findInsertIndex i [] action = i"
| "findInsertIndex i (item # rest) action =
     (if priorityValue (priority item) > priorityValue (priority action) then i
      else findInsertIndex (Suc i) rest action)"

text \<open>\<^verbatim>\<open>queue.splice(insertIndex, 0, action)\<close>\<close>

definition insertByPriority :: "AgentAction list \<Rightarrow> AgentAction \<Rightarrow> AgentAction list" where
  "insertByPriority queue action =
     (let insertIndex = findInsertIndex 0 queue action
      in take insertIndex queue @ [action] @ drop insertIndex queue)"

text \<open>\<^verbatim>\<open>if (action.timeout) { age = Date.now() - action.timestamp; if (age > action.timeout) ...\<close>\<close>

definition timedOut :: "int \<Rightarrow> AgentAction \<Rightarrow> bool" where
  "timedOut now action =
     (case timeout action of
        None \<Rightarrow> False
      | Some t \<Rightarrow> t \<noteq> 0 \<and> now - timestamp action > t)"

text \<open>
  \<^verbatim>\<open>executeNextAction\<close> runs without suspending from the head of its \<^verbatim>\<open>while\<close> loop
  up to the first \<^verbatim>\<open>await action.execute()\<close> or to the \<^verbatim>\<open>break\<close>. The function below is
  that stretch, by recursion on what is left of the agent's queue. The boolean says
  whether the loop ended (\<open>True\<close>) or is suspended in an action (\<open>False\<close>).
\<close>

fun runQueued ::
  "string \<Rightarrow> int \<Rightarrow> AgentAction list \<Rightarrow> AgentActionQueue \<Rightarrow> AgentActionQueue \<times> bool" where
  "runQueued ag now [] s = (s\<lparr>executing := (executing s)(ag := None)\<rparr>, True)"
| "runQueued ag now (action # rest) s =
     (let s1 = s\<lparr>queues := (queues s)(ag \<mapsto> rest),
                 executing := (executing s)(ag \<mapsto> action)\<rparr>
      in if timedOut now action
         then runQueued ag now rest
                (s1\<lparr>executing := (executing s1)(ag := None),
                    expired := expired s1 @ [action_id action]\<rparr>)
         else (s1\<lparr>started := started s1 @ [action_id action]\<rparr>, False))"

definition executeNextAction :: "string \<Rightarrow> int \<Rightarrow> AgentActionQueue \<Rightarrow> AgentActionQueue \<times> bool" where
  "executeNextAction ag now s =
     (case queues s ag of
        None \<Rightarrow> (s\<lparr>executing := (executing s)(ag := None)\<rparr>, True)
      | Some queue \<Rightarrow> runQueued ag now queue s)"

text \<open>
  The promise of \<^verbatim>\<open>executeNextAction\<close> resolves when its loop ends; the
  \<^verbatim>\<open>processQueue\<close> call that awaits it resumes in a later microtask.
\<close>

definition loopEnded :: "bool \<Rightarrow> string \<Rightarrow> AgentActionQueue \<Rightarrow> AgentActionQueue" where
  "loopEnded finished ag s = (if finished then s\<lparr>releasing := releasing s @ [ag]\<rparr> else s)"

text \<open>
  \<^verbatim>\<open>processQueue\<close> up to its \<^verbatim>\<open>await\<close>: nothing happens while the agent's lock is set.
  Otherwise the loop runs up to its first suspension or to its end, and then the lock is
  set, also when the loop has already ended.
\<close>

definition processQueue :: "string \<Rightarrow> int \<Rightarrow> AgentActionQueue \<Rightarrow> AgentActionQueue" where
  "processQueue ag now s =
     (if ag \<in> locks s then s
      else
        let (s1, finished) = executeNextAction ag now s
        in loopEnded finished ag (s1\<lparr>locks := insert ag (locks s1)\<rparr>))"


definition enqueue :: "AgentAction \<Rightarrow> int \<Rightarrow> AgentActionQueue \<Rightarrow> bool \<times> AgentActionQueue" where
  "enqueue action now s =
     (let ag = agentId action;
          queue = (case queues s ag of None \<Rightarrow> [] | Some q \<Rightarrow> q);
          s0 = s\<lparr>queues := (queues s)(ag \<mapsto> queue)\<rparr>
      in if length queue \<ge> 100 then (False, s0)
         else (True, processQueue ag now
                       (s0\<lparr>queues := (queues s0)(ag \<mapsto> insertByPriority queue action)\<rparr>)))"





section \<open>Auxiliary notions used in the statements\<close>

text \<open>The state an accepted write of \<open>tile\<close> at \<open>pos\<close> leaves behind.\<close>

definition written :: "WorldManager \<Rightarrow> Position2D \<Rightarrow> Tile \<Rightarrow> WorldManager" where
  "written w pos tile =
     (let row = tiles (worldMap w) ! nat (pos_y pos);
          tile' = tile\<lparr>tile_version := Some (getTileVersion w pos + 1)\<rparr>;
          m = worldMap w
      in markTileDirty pos
           (w\<lparr>worldMap := m\<lparr>tiles := (tiles m)[nat (pos_y pos) := js_set row (pos_x pos) tile']\<rparr>\<rparr>))"

definition rowPresent :: "WorldManager \<Rightarrow> Position2D \<Rightarrow> bool" where
  "rowPresent w pos \<longleftrightarrow> nat (pos_y pos) < length (tiles (worldMap w))"

text \<open>
  \<^verbatim>\<open>generateDefaultWorld\<close>, the grid the constructor builds. The random source is a
  stream \<open>rnd\<close> of draws, read in order; the number of draws made so far is threaded
  through the two loops.
\<close>

definition resourceTile :: "TerrainType \<Rightarrow> int \<Rightarrow> Tile" where
  "resourceTile t d =
     \<lparr>tile_type = t,
      tile_state = Some \<lparr>tilled = None, crop = None, growthStage = None, watered = None,
                         durability = Some d, lastInteractedAt = None, otherFields = []\<rparr>,
      tile_metadata = None, tile_version = None\<rparr>"

definition placeTile :: "int \<Rightarrow> int \<Rightarrow> int \<Rightarrow> int \<Rightarrow> (nat \<Rightarrow> rat) \<Rightarrow> nat \<Rightarrow> Tile \<times> nat" where
  "placeTile wd ht i j rnd k =
     (if i = 0 \<or> i = wd - 1 \<or> j = 0 \<or> j = ht - 1 then (tileOfType WALL, k)
      else if rnd k < 5/100 then (tileOfType TerrainType.WATER, Suc k)
      else if rnd (Suc k) < 3/100 then (resourceTile TREE 3, Suc (Suc k))
      else if rnd (Suc (Suc k)) < 2/100 then (resourceTile ROCK 5, Suc (Suc (Suc k)))
      else (tileOfType GRASS, Suc (Suc (Suc k))))"

fun genRow :: "int \<Rightarrow> int \<Rightarrow> int \<Rightarrow> nat list \<Rightarrow> (nat \<Rightarrow> rat) \<Rightarrow> nat \<Rightarrow> Tile option list \<times> nat" where
  "genRow wd ht j [] rnd k = ([], k)"
| "genRow wd ht j (i # rest) rnd k =
     (let (t, k1) = placeTile wd ht (int i) j rnd k;
          (row, k2) = genRow wd ht j rest rnd k1
      in (Some t # row, k2))"

fun genRows :: "int \<Rightarrow> int \<Rightarrow> nat list \<Rightarrow> (nat \<Rightarrow> rat) \<Rightarrow> nat \<Rightarrow> Tile option list list \<times> nat" where
  "genRows wd ht [] rnd k = ([], k)"
| "genRows wd ht (j # rest) rnd k =
     (let (row, k1) = genRow wd ht (int j) [0..<nat wd] rnd k;
          (rows, k2) = genRows wd ht rest rnd k1
      in (row # rows, k2))"

definition generateDefaultWorld :: "int \<Rightarrow> int \<Rightarrow> (nat \<Rightarrow> rat) \<Rightarrow> WorldMap" where
  "generateDefaultWorld wd ht rnd =
     \<lparr>width = wd, height = ht, tiles = fst (genRows wd ht [0..<nat ht] rnd 0)\<rparr>"

definition newWorldManager :: "int \<Rightarrow> int \<Rightarrow> (nat \<Rightarrow> rat) \<Rightarrow> WorldManager" where
  "newWorldManager wd ht rnd = \<lparr>worldMap = generateDefaultWorld wd ht rnd, dirtyTiles = {}\<rparr>"

text \<open>Running sums that start from an accumulator, as inside the weather loop.\<close>

definition cumulativeFrom :: "rat \<Rightarrow> (WeatherType \<times> rat) list \<Rightarrow> nat \<Rightarrow> rat" where
  "cumulativeFrom acc transitions i = foldl (+) acc (map snd (take (Suc i) transitions))"



section \<open>Concrete states used as examples\<close>

definition mkPos :: "int \<Rightarrow> int \<Rightarrow> Position2D" where
  "mkPos i j = \<lparr>pos_x = i, pos_y = j\<rparr>"

text \<open>A clock with a tick interval of 50 ms at double speed, and one at triple speed.\<close>

definition exampleClock :: TimeManager where
  "exampleClock =
     \<lparr>tick = 0, timeOfDay = Dawn, listeners = 1, notifications = [],
      tickIntervalMs = 50, speedMultiplier = 2, lastUpdatedAt = 0, running = True\<rparr>"

definition tripleSpeedClock :: TimeManager where
  "tripleSpeedClock = exampleClock\<lparr>speedMultiplier := 3\<rparr>"

text \<open>The game after \<^verbatim>\<open>init\<close>: the clock started, the loop about to run.\<close>

definition exampleGame :: Game where
  "exampleGame = \<lparr>timeManager = start 1000 (newGameClock 1000), lastUpdateTime = 1000\<rparr>"

definition exampleSnapshot :: "int \<Rightarrow> TimeOfDay \<Rightarrow> GameTimeSnapshot" where
  "exampleSnapshot t p =
     \<lparr>snap_tick = t, snap_timeOfDay = p, snap_speedMultiplier = 2,
      snap_tickIntervalMs = 50, snap_lastUpdatedAt = Some 900\<rparr>"

definition exampleWorld :: WorldManager where
  "exampleWorld =
     \<lparr>worldMap =
        \<lparr>width = 2, height = 2,
         tiles = [[Some (resourceTile TREE 3), Some (resourceTile ROCK 1)],
                  [Some (tileOfType GRASS), Some ((tileOfType GRASS)\<lparr>tile_version := Some 3\<rparr>)]]\<rparr>,
      dirtyTiles = {}\<rparr>"




text \<open>
  A player standing on the grass tile at (0, 1) of the example world, a manager at rest,
  and a request of that player for that tile.
\<close>

definition examplePlayers :: "string \<rightharpoonup> Position" where
  "examplePlayers = [''p1'' \<mapsto> \<lparr>px = 1/2, py = 0, pz = 6/5\<rparr>]"

definition exampleManager :: InteractionManager where
  "exampleManager =
     \<lparr>worldManager = exampleWorld, agentPositions = examplePlayers,
      interactionQueues = Map.empty, processingCount = 0, promisesMade = 0,
      microtasks = [], handled = []\<rparr>"

definition exampleRequest :: "InteractionType \<Rightarrow> InteractionRequest" where
  "exampleRequest ty =
     \<lparr>playerId = ''p1'', req_type = ty, target = mkPos 0 1, req_cropId = Some ''wheat''\<rparr>"

text \<open>
  What a log entry says about one tile: the type of the request, the type and the version
  of the tile in the world the handler found, and the message of the result.
\<close>

definition entrySummary ::
  "Position2D \<Rightarrow> InteractionRequest \<times> WorldManager \<times> InteractionResult
     \<Rightarrow> InteractionType \<times> TerrainType \<times> int \<times> Message" where
  "entrySummary pos entry =
     (req_type (fst entry), tile_type (getTile (fst (snd entry)) pos),
      getTileVersion (fst (snd entry)) pos, ir_message (snd (snd entry)))"

section \<open>Properties of the world clock\<close>

lemma js_rem_nonneg: "0 \<le> a \<Longrightarrow> js_rem a b = a mod \<bar>b\<bar>"
  by (cases "a = 0") (simp_all add: js_rem_def)

lemma normalized_nonneg:
  assumes "0 \<le> t"
  shows "js_rem (js_rem t ticksPerDay + ticksPerDay) ticksPerDay = t mod 240"
proof -
  have a: "js_rem t ticksPerDay = t mod 240"
    using assms by (simp add: js_rem_nonneg ticksPerDay_def)
  have b: "0 \<le> t mod 240 + 240" by simp
  show ?thesis
    unfolding a using js_rem_nonneg [OF b, of ticksPerDay]
    by (simp add: ticksPerDay_def)
qed

lemma resolvePeriod_nonneg:
  assumes "0 \<le> t"
  shows "resolvePeriod t =
     (if t mod 240 < 60 then Dawn else if t mod 240 < 120 then Day
      else if t mod 240 < 180 then Dusk else Night)"
proof -
  have n: "js_rem (js_rem t ticksPerDay + ticksPerDay) ticksPerDay = t mod 240"
    by (rule normalized_nonneg [OF assms])
  have c1: "(of_int (t mod 240) < (60::rat)) = (t mod 240 < 60)"
    by (metis of_int_less_iff of_int_numeral)
  have c2: "(of_int (t mod 240) < (120::rat)) = (t mod 240 < 120)"
    by (metis of_int_less_iff of_int_numeral)
  have c3: "(of_int (t mod 240) < (180::rat)) = (t mod 240 < 180)"
    by (metis of_int_less_iff of_int_numeral)
  show ?thesis
    unfolding resolvePeriod_def n Let_def
    by (simp add: ticksPerDay_def c1 c2 c3)
qed

lemma applyTickAdvance_tick:
  "tick (applyTickAdvance d s) = (if d \<le> 0 then tick s else tick s + d)"
  by (simp add: applyTickAdvance_def fire_def Let_def)

lemma applyTickAdvance_fields:
  "lastUpdatedAt (applyTickAdvance d s) = lastUpdatedAt s"
  "speedMultiplier (applyTickAdvance d s) = speedMultiplier s"
  "tickIntervalMs (applyTickAdvance d s) = tickIntervalMs s"
  by (simp_all add: applyTickAdvance_def fire_def Let_def)


subsection \<open>Rounding to binary64\<close>

lemma bitlen_pos: "0 < n \<Longrightarrow> 1 \<le> bitlen n"
  using bitlen_eq_zero_iff [of n] bitlen_nonneg [of n] by linarith

lemma roundEven_of_int: "roundEven (of_int m) = m"
  by (simp add: roundEven_def)

lemma roundEven_cases: "roundEven x = \<lfloor>x\<rfloor> \<or> roundEven x = \<lfloor>x\<rfloor> + 1"
  by (simp add: roundEven_def Let_def)

lemma roundEven_ge:
  assumes "of_int m \<le> x" shows "m \<le> roundEven x"
proof -
  have "m \<le> \<lfloor>x\<rfloor>" using assms by (simp add: le_floor_iff)
  then show ?thesis using roundEven_cases [of x] by linarith
qed

lemma roundEven_le:
  assumes "x \<le> of_int m" shows "roundEven x \<le> m"
proof (cases "x = of_int m")
  case True
  then show ?thesis by (simp add: roundEven_of_int)
next
  case False
  with assms have "x < of_int m" by simp
  then have "\<lfloor>x\<rfloor> < m" by (simp add: floor_less_iff)
  then show ?thesis using roundEven_cases [of x] by auto
qed

lemma roundEven_err: "\<bar>of_int (roundEven x) - x\<bar> \<le> 1/2"
proof -
  have "of_int \<lfloor>x\<rfloor> \<le> x" "x < of_int \<lfloor>x\<rfloor> + 1" by linarith+
  then show ?thesis
    by (auto simp: roundEven_def Let_def abs_le_iff)
qed

lemma ilog2_le:
  assumes "0 < x" shows "2 powi ilog2 x \<le> x"
proof (cases "1 \<le> x")
  case True
  then have n: "0 < \<lfloor>x\<rfloor>" by simp
  have b: "2 ^ nat (bitlen \<lfloor>x\<rfloor> - 1) \<le> \<lfloor>x\<rfloor>"
    using bitlen_bounds [OF n] by simp
  have pos: "0 \<le> bitlen \<lfloor>x\<rfloor> - 1" using bitlen_pos [OF n] by simp
  have "(2::rat) powi (bitlen \<lfloor>x\<rfloor> - 1) = of_int (2 ^ nat (bitlen \<lfloor>x\<rfloor> - 1))"
    using pos by (simp add: power_int_def)
  also have "\<dots> \<le> of_int \<lfloor>x\<rfloor>" using b by (simp only: of_int_le_iff)
  also have "\<dots> \<le> x" by simp
  finally show ?thesis using True by (simp add: ilog2_def)
next
  case False
  then have x1: "x < 1" by simp
  let ?m = "\<lceil>1 / x\<rceil> - 1"
  have "1 < 1 / x" using assms x1 by simp
  then have "1 < \<lceil>1 / x\<rceil>" by (simp add: less_ceiling_iff)
  then have m: "0 < ?m" by simp
  have "?m < 2 ^ nat (bitlen ?m)" using bitlen_bounds [OF m] by simp
  then have "\<lceil>1 / x\<rceil> \<le> 2 ^ nat (bitlen ?m)" by simp
  then have b: "(of_int \<lceil>1 / x\<rceil> :: rat) \<le> of_int (2 ^ nat (bitlen ?m))"
    by (simp only: of_int_le_iff)
  have a: "1 / x \<le> of_int \<lceil>1 / x\<rceil>" by (rule le_of_int_ceiling)
  have c: "(of_int (2 ^ nat (bitlen ?m)) :: rat) = 2 ^ nat (bitlen ?m)" by simp
  have "1 / x \<le> 2 ^ nat (bitlen ?m)"
    using order_trans [OF a b] unfolding c .
  then have "1 / 2 ^ nat (bitlen ?m) \<le> x"
    using assms by (simp add: field_simps)
  moreover have "(2::rat) powi (- bitlen ?m) = 1 / 2 ^ nat (bitlen ?m)"
    using bitlen_pos [OF m] by (simp add: power_int_def field_simps)
  ultimately show ?thesis using False by (simp add: ilog2_def)
qed


lemma ulp_pos: "0 < ulp x"
  by (simp add: ulp_def)

lemma ilog2_small:
  assumes "0 < x" "x < 2 ^ 53" shows "ilog2 x \<le> 52"
proof (rule ccontr)
  assume "\<not> ilog2 x \<le> 52"
  then have "53 \<le> ilog2 x" by simp
  then have "(2::rat) powi 53 \<le> 2 powi ilog2 x"
    by (intro power_int_increasing) simp_all
  also have "\<dots> \<le> x" by (rule ilog2_le [OF assms(1)])
  finally show False using assms(2) by simp
qed

lemma ulp_small:
  assumes "x \<noteq> 0" "\<bar>x\<bar> < 2 ^ 53"
  shows "\<exists>j. ulp x = 1 / 2 ^ j"
proof -
  have "ilog2 \<bar>x\<bar> \<le> 52" using assms by (intro ilog2_small) simp_all
  then have le: "max (ilog2 \<bar>x\<bar>) (- 1022) - 52 \<le> 0" by simp
  have "ulp x = 1 / 2 ^ nat (- (max (ilog2 \<bar>x\<bar>) (- 1022) - 52))"
    using le unfolding ulp_def
    by (cases "max (ilog2 \<bar>x\<bar>) (- 1022) - 52 = 0") (simp_all add: power_int_def field_simps)
  then show ?thesis by blast
qed

lemma ulp_half:
  assumes "x \<noteq> 0"
  shows "ulp x / 2 \<le> \<bar>x\<bar> / 2 ^ 53 \<or> ulp x / 2 \<le> 1 / 2 ^ 53"
proof (cases "- 1022 \<le> ilog2 \<bar>x\<bar>")
  case True
  then have "ulp x = 2 powi (ilog2 \<bar>x\<bar> - 52)" by (simp add: ulp_def max_def)
  also have "\<dots> = 2 powi ilog2 \<bar>x\<bar> / 2 ^ 52"
    by (simp add: power_int_diff)
  finally have "ulp x / 2 = 2 powi ilog2 \<bar>x\<bar> / 2 ^ 53" by simp
  moreover have "2 powi ilog2 \<bar>x\<bar> \<le> \<bar>x\<bar>" using assms by (intro ilog2_le) simp
  ultimately show ?thesis by (simp add: divide_right_mono)
next
  case False
  then have "ulp x = 2 powi (- 1074)" by (simp add: ulp_def max_def)
  also have "\<dots> \<le> 2 powi (- 52)" by (intro power_int_increasing) simp_all
  also have "\<dots> = 1 / 2 ^ 52" by (simp add: power_int_def field_simps)
  finally show ?thesis by simp
qed

lemma binary64_on_grid:
  assumes "x / ulp x = of_int m"
  shows "binary64 x = x"
proof (cases "x = 0")
  case True
  then show ?thesis by (simp add: binary64_def)
next
  case False
  have "binary64 x = of_int m * ulp x"
    using False assms by (simp add: binary64_def roundEven_of_int)
  also have "\<dots> = x" using assms ulp_pos [of x] by (simp add: field_simps)
  finally show ?thesis .
qed

lemma binary64_of_int:
  assumes "\<bar>n\<bar> < 2 ^ 53"
  shows "binary64 (of_int n) = of_int n"
proof (cases "n = 0")
  case True
  then show ?thesis by (simp add: binary64_def)
next
  case False
  have b: "\<bar>rat_of_int n\<bar> < 2 ^ 53"
  proof -
    have "rat_of_int \<bar>n\<bar> < rat_of_int (2 ^ 53)" using assms by (simp only: of_int_less_iff)
    then show ?thesis by simp
  qed
  obtain j where j: "ulp (of_int n) = 1 / 2 ^ j"
    using ulp_small [of "of_int n"] False b by auto
  have "rat_of_int n / ulp (of_int n) = of_int (n * 2 ^ j)" by (simp add: j)
  then show ?thesis by (rule binary64_on_grid)
qed

lemma floor_binary64_quotient:
  assumes a: "0 < a" "a < 2 ^ 53" and b: "0 < b" "b < 2 ^ 53"
  shows "\<lfloor>binary64 (of_int a / of_int b)\<rfloor> = a div b"
proof -
  let ?q = "rat_of_int a / rat_of_int b"
  let ?k = "a div b"
  have qpos: "0 < ?q" using a b by simp
  have bpos: "0 < rat_of_int b" using b by simp
  have fq: "\<lfloor>?q\<rfloor> = ?k" by (simp add: floor_divide_of_int_eq)
  have klo: "of_int ?k \<le> ?q" using fq by (metis of_int_floor_le)
  have "rat_of_int a \<le> rat_of_int a * rat_of_int b"
    using a b by (simp add: mult_le_cancel_left1 flip: of_int_mult)
  then have "?q \<le> of_int a" using bpos by (simp add: field_simps)
  moreover have "rat_of_int a < 2 ^ 53"
  proof -
    have "rat_of_int a < rat_of_int (2 ^ 53)" using a by (simp only: of_int_less_iff)
    then show ?thesis by simp
  qed
  ultimately have qsmall: "\<bar>?q\<bar> < 2 ^ 53" using qpos by simp
  have qnz: "?q \<noteq> 0" using a b by simp
  from ulp_small [OF qnz qsmall] obtain j where j: "ulp ?q = 1 / 2 ^ j" by blast
  have val: "binary64 ?q = of_int (roundEven (?q * 2 ^ j)) / 2 ^ j"
    using a b by (simp add: binary64_def j)
  have lo: "of_int ?k \<le> binary64 ?q"
  proof -
    have "rat_of_int ?k * 2 ^ j \<le> ?q * 2 ^ j"
      by (rule mult_right_mono [OF klo]) simp
    then have "rat_of_int (?k * 2 ^ j) \<le> ?q * 2 ^ j" by simp
    then have "?k * 2 ^ j \<le> roundEven (?q * 2 ^ j)" by (rule roundEven_ge)
    then have "rat_of_int (?k * 2 ^ j) \<le> of_int (roundEven (?q * 2 ^ j))"
      by (simp only: of_int_le_iff)
    then show ?thesis unfolding val by (simp add: field_simps)
  qed
  have rem: "a < (?k + 1) * b"
  proof -
    have m: "a mod b < b" using b by simp
    have d: "?k * b + a mod b = a" by simp
    have "a < ?k * b + b" using m d by linarith
    then show ?thesis by (simp add: algebra_simps)
  qed
  then have "a + 1 \<le> (?k + 1) * b" by simp
  then have "rat_of_int (a + 1) \<le> rat_of_int ((?k + 1) * b)" by (simp only: of_int_le_iff)
  then have gap: "1 / of_int b \<le> of_int (?k + 1) - ?q"
    using bpos by (simp add: field_simps)
  have "0 \<le> 1 / rat_of_int b" using bpos by simp
  with gap have khi: "?q \<le> of_int (?k + 1)" by linarith
  have hi: "binary64 ?q < of_int ?k + 1"
  proof (rule ccontr)
    assume "\<not> binary64 ?q < of_int ?k + 1"
    then have ge: "of_int (?k + 1) \<le> binary64 ?q" by simp
    define P :: rat where "P = 2 ^ j"
    define X where "X = ?q * P"
    define K1 where "K1 = rat_of_int (?k + 1)"
    have Ppos: "0 < P" by (simp add: P_def)
    have KP: "K1 * P = rat_of_int ((?k + 1) * 2 ^ j)" by (simp add: K1_def P_def)
    have valX: "binary64 ?q = of_int (roundEven X) / P"
      unfolding val X_def P_def ..
    have "X \<le> K1 * P"
      unfolding X_def K1_def using khi Ppos by (intro mult_right_mono) simp_all
    then have "X \<le> rat_of_int ((?k + 1) * 2 ^ j)" unfolding KP .
    then have up: "roundEven X \<le> (?k + 1) * 2 ^ j" by (rule roundEven_le)
    have "K1 \<le> of_int (roundEven X) / P" using ge unfolding valX K1_def .
    then have "K1 * P \<le> of_int (roundEven X)"
      using pos_le_divide_eq [OF Ppos] by blast
    then have "rat_of_int ((?k + 1) * 2 ^ j) \<le> of_int (roundEven X)" unfolding KP .
    then have "(?k + 1) * 2 ^ j \<le> roundEven X" by (simp only: of_int_le_iff)
    with up have eq: "roundEven X = (?k + 1) * 2 ^ j" by simp
    then have eq': "rat_of_int (roundEven X) = K1 * P" using KP by simp
    have "\<bar>of_int (roundEven X) - X\<bar> \<le> 1 / 2" by (rule roundEven_err)
    then have "K1 * P - X \<le> 1 / 2" unfolding eq' by linarith
    then have "(K1 - ?q) * P \<le> 1 / 2" unfolding X_def by (simp add: algebra_simps)
    then have "K1 - ?q \<le> (1 / 2) / P"
      using pos_le_divide_eq [OF Ppos] by blast
    moreover have "ulp ?q / 2 = (1 / 2) / P" unfolding j P_def by simp
    ultimately have close: "of_int (?k + 1) - ?q \<le> ulp ?q / 2" unfolding K1_def by simp
    have small: "ulp ?q / 2 < 1 / of_int b"
    proof -
      have b53: "rat_of_int b < 2 ^ 53"
      proof -
        have "rat_of_int b < rat_of_int (2 ^ 53)" using b by (simp only: of_int_less_iff)
        then show ?thesis by simp
      qed
      have c1: "\<bar>?q\<bar> / 2 ^ 53 < 1 / of_int b"
      proof -
        have "\<bar>?q\<bar> / 2 ^ 53 = (of_int a / 2 ^ 53) / of_int b" using a b by simp
        also have "\<dots> < 1 / of_int b"
          using \<open>rat_of_int a < 2 ^ 53\<close> bpos by (intro divide_strict_right_mono) simp_all
        finally show ?thesis .
      qed
      have c2: "(1::rat) / 2 ^ 53 < 1 / of_int b"
        using b53 bpos by (simp add: field_simps)
      from ulp_half [OF qnz] c1 c2 show ?thesis by linarith
    qed
    from gap close small show False by linarith
  qed
  show ?thesis using lo hi by (simp add: floor_unique)
qed


lemma ilog2_less:
  assumes "0 < x" shows "x < 2 powi (ilog2 x + 1)"
proof (cases "1 \<le> x")
  case True
  then have n: "0 < \<lfloor>x\<rfloor>" by simp
  have "\<lfloor>x\<rfloor> + 1 \<le> 2 ^ nat (bitlen \<lfloor>x\<rfloor>)" using bitlen_bounds [OF n] by simp
  then have "rat_of_int (\<lfloor>x\<rfloor> + 1) \<le> rat_of_int (2 ^ nat (bitlen \<lfloor>x\<rfloor>))"
    by (simp only: of_int_le_iff)
  then have b: "rat_of_int \<lfloor>x\<rfloor> + 1 \<le> 2 ^ nat (bitlen \<lfloor>x\<rfloor>)" by simp
  have "x < rat_of_int \<lfloor>x\<rfloor> + 1" by linarith
  with b have "x < 2 ^ nat (bitlen \<lfloor>x\<rfloor>)" by linarith
  moreover have "(2::rat) powi (bitlen \<lfloor>x\<rfloor>) = 2 ^ nat (bitlen \<lfloor>x\<rfloor>)"
    using bitlen_nonneg [of "\<lfloor>x\<rfloor>"] by (simp add: power_int_def)
  ultimately show ?thesis using True by (simp add: ilog2_def)
next
  case False
  then have x1: "x < 1" by simp
  let ?m = "\<lceil>1 / x\<rceil> - 1"
  have "1 < 1 / x" using assms x1 by simp
  then have "1 < \<lceil>1 / x\<rceil>" by (simp add: less_ceiling_iff)
  then have m: "0 < ?m" by simp
  have "(2::int) ^ nat (bitlen ?m - 1) \<le> ?m" using bitlen_bounds [OF m] by simp
  then have "rat_of_int (2 ^ nat (bitlen ?m - 1)) \<le> rat_of_int ?m"
    by (simp only: of_int_le_iff)
  then have b: "(2::rat) ^ nat (bitlen ?m - 1) \<le> rat_of_int ?m" by simp
  have "rat_of_int ?m < 1 / x" by linarith
  with b have "(2::rat) ^ nat (bitlen ?m - 1) < 1 / x" by linarith
  then have "x * 2 ^ nat (bitlen ?m - 1) < 1"
    using assms by (simp add: field_simps)
  then have "x < 1 / 2 ^ nat (bitlen ?m - 1)"
    by (simp add: field_simps)
  moreover have "(2::rat) powi (- bitlen ?m + 1) = 1 / 2 ^ nat (bitlen ?m - 1)"
  proof (cases "bitlen ?m = 1")
    case True
    then show ?thesis by simp
  next
    case False
    then have "1 < bitlen ?m" using bitlen_pos [OF m] by simp
    then have "- bitlen ?m + 1 < 0" "nat (- (- bitlen ?m + 1)) = nat (bitlen ?m - 1)" by simp_all
    then show ?thesis by (simp add: power_int_def field_simps)
  qed
  ultimately show ?thesis using False by (simp add: ilog2_def)
qed

lemma binary64_error: "\<bar>binary64 x - x\<bar> \<le> ulp x / 2"
proof (cases "x = 0")
  case True
  then show ?thesis using ulp_pos [of 0] by (simp add: binary64_def)
next
  case False
  have "\<bar>of_int (roundEven (x / ulp x)) - x / ulp x\<bar> \<le> 1 / 2" by (rule roundEven_err)
  then have "\<bar>of_int (roundEven (x / ulp x)) - x / ulp x\<bar> * ulp x \<le> 1 / 2 * ulp x"
    using ulp_pos [of x] by (intro mult_right_mono) simp_all
  moreover have "\<bar>of_int (roundEven (x / ulp x)) - x / ulp x\<bar> * ulp x =
      \<bar>of_int (roundEven (x / ulp x)) * ulp x - x\<bar>"
  proof -
    have "\<bar>of_int (roundEven (x / ulp x)) - x / ulp x\<bar> * ulp x =
      \<bar>(of_int (roundEven (x / ulp x)) - x / ulp x) * ulp x\<bar>"
      using ulp_pos [of x] by (simp add: abs_mult)
    also have "(of_int (roundEven (x / ulp x)) - x / ulp x) * ulp x =
       of_int (roundEven (x / ulp x)) * ulp x - x"
      using ulp_pos [of x] by (simp add: left_diff_distrib)
    finally show ?thesis .
  qed
  ultimately show ?thesis using False by (simp add: binary64_def)
qed


subsection \<open>Elapsed-time conversion without rounding\<close>

lemma advanceIdeal_tick:
  "tick (advanceIdeal now s) =
     (if now - lastUpdatedAt s \<le> 0 \<or> ticksDue now s \<le> 0 then tick s
      else tick s + ticksDue now s)"
  by (simp add: advanceIdeal_def Let_def ticksDue_def applyTickAdvance_tick)

lemma advanceIdeal_last:
  "lastUpdatedAt (advanceIdeal now s) =
     (if now - lastUpdatedAt s \<le> 0 \<or> ticksDue now s \<le> 0 then lastUpdatedAt s
      else now - ((now - lastUpdatedAt s) * speedMultiplier s
                   - of_int (ticksDue now s) * tickIntervalMs s) / speedMultiplier s)"
  by (simp add: advanceIdeal_def Let_def ticksDue_def applyTickAdvance_fields)

lemma advanceIdeal_params:
  "speedMultiplier (advanceIdeal now s) = speedMultiplier s"
  "tickIntervalMs (advanceIdeal now s) = tickIntervalMs s"
  by (simp_all add: advanceIdeal_def Let_def applyTickAdvance_fields)

lemma scaledTime_ideal:
  assumes "0 < speedMultiplier s"
  shows "scaledTime t (advanceIdeal now s) = scaledTime t s"
proof (cases "now - lastUpdatedAt s \<le> 0 \<or> ticksDue now s \<le> 0")
  case True
  then show ?thesis
    by (simp add: scaledTime_def advanceIdeal_tick advanceIdeal_last advanceIdeal_params)
next
  case False
  have nz: "speedMultiplier s \<noteq> 0" using assms by simp
  show ?thesis
    using False nz
    by (simp add: scaledTime_def advanceIdeal_tick advanceIdeal_last advanceIdeal_params
        field_simps)
qed

lemma ticksDue_nonneg:
  assumes "0 < speedMultiplier s" "0 < tickIntervalMs s" "lastUpdatedAt s \<le> now"
  shows "0 \<le> ticksDue now s"
proof -
  have "0 \<le> (now - lastUpdatedAt s) * speedMultiplier s / tickIntervalMs s"
    using assms by simp
  then show ?thesis by (simp add: ticksDue_def)
qed

lemma ticksDue_mono:
  assumes "0 < speedMultiplier s" "0 < tickIntervalMs s" "t \<le> t'"
  shows "ticksDue t s \<le> ticksDue t' s"
proof -
  have "(t - lastUpdatedAt s) * speedMultiplier s \<le> (t' - lastUpdatedAt s) * speedMultiplier s"
    using assms by (simp add: mult_right_mono)
  then have "(t - lastUpdatedAt s) * speedMultiplier s / tickIntervalMs s
      \<le> (t' - lastUpdatedAt s) * speedMultiplier s / tickIntervalMs s"
    using assms(2) by (simp add: divide_right_mono)
  then show ?thesis unfolding ticksDue_def by (rule floor_mono)
qed

lemma ticksDue_via_scaledTime:
  assumes "0 < tickIntervalMs s"
  shows "ticksDue t s = \<lfloor>scaledTime t s / tickIntervalMs s\<rfloor> - tick s"
proof -
  have nz: "tickIntervalMs s \<noteq> 0" using assms by simp
  have "scaledTime t s / tickIntervalMs s =
        (t - lastUpdatedAt s) * speedMultiplier s / tickIntervalMs s + of_int (tick s)"
    using nz by (simp add: scaledTime_def field_simps)
  then show ?thesis by (simp add: ticksDue_def)
qed

lemma ticksDue_after_ideal:
  assumes "0 < speedMultiplier s" "0 < tickIntervalMs s"
  shows "ticksDue t' (advanceIdeal t s) = ticksDue t' s + tick s - tick (advanceIdeal t s)"
proof -
  have i: "0 < tickIntervalMs (advanceIdeal t s)"
    using assms by (simp add: advanceIdeal_params)
  show ?thesis
    using ticksDue_via_scaledTime [OF i, of t'] ticksDue_via_scaledTime [OF assms(2), of t']
      scaledTime_ideal [OF assms(1), of t' t]
    by (simp add: advanceIdeal_params)
qed

lemma leftover_bounds:
  assumes "0 < speedMultiplier s" "0 < tickIntervalMs s"
  shows "0 \<le> (now - lastUpdatedAt s) * speedMultiplier s - of_int (ticksDue now s) * tickIntervalMs s"
    and "(now - lastUpdatedAt s) * speedMultiplier s - of_int (ticksDue now s) * tickIntervalMs s
           < tickIntervalMs s"
proof -
  let ?e = "(now - lastUpdatedAt s) * speedMultiplier s"
  have lo: "of_int (ticksDue now s) \<le> ?e / tickIntervalMs s"
    by (simp add: ticksDue_def)
  have hi: "?e / tickIntervalMs s < of_int (ticksDue now s) + 1"
    unfolding ticksDue_def by linarith
  from lo have "of_int (ticksDue now s) * tickIntervalMs s \<le> ?e"
    using pos_le_divide_eq [OF assms(2)] by blast
  then show "0 \<le> ?e - of_int (ticksDue now s) * tickIntervalMs s"
    by simp
  from hi have "?e < (of_int (ticksDue now s) + 1) * tickIntervalMs s"
    using pos_divide_less_eq [OF assms(2)] by blast
  then show "?e - of_int (ticksDue now s) * tickIntervalMs s < tickIntervalMs s"
    by (simp add: algebra_simps)
qed

lemma ideal_last_le:
  assumes "0 < speedMultiplier s" "0 < tickIntervalMs s" "lastUpdatedAt s \<le> now"
  shows "lastUpdatedAt (advanceIdeal now s) \<le> now"
proof (cases "now - lastUpdatedAt s \<le> 0 \<or> ticksDue now s \<le> 0")
  case True
  then show ?thesis using assms(3) by (simp add: advanceIdeal_last)
next
  case False
  have "0 \<le> ((now - lastUpdatedAt s) * speedMultiplier s
              - of_int (ticksDue now s) * tickIntervalMs s) / speedMultiplier s"
    using leftover_bounds(1) [OF assms(1,2), of now] assms(1) by simp
  then show ?thesis using False by (simp add: advanceIdeal_last)
qed

lemma unconverted_after_ideal:
  assumes "0 < speedMultiplier s"
  shows "(t' - lastUpdatedAt (advanceIdeal t s)) * speedMultiplier s =
         (t' - lastUpdatedAt s) * speedMultiplier s
           - of_int (tick (advanceIdeal t s) - tick s) * tickIntervalMs s"
  using scaledTime_ideal [OF assms, of t' t]
  by (simp add: scaledTime_def advanceIdeal_params algebra_simps)

lemma ideal_unchanged:
  "now - lastUpdatedAt s \<le> 0 \<or> ticksDue now s \<le> 0 \<Longrightarrow> advanceIdeal now s = s"
  by (auto simp add: advanceIdeal_def Let_def ticksDue_def)

lemma ideal_twice:
  assumes sp: "0 < speedMultiplier s" and iv: "0 < tickIntervalMs s" and le: "t \<le> t'"
  shows "tick (advanceIdeal t' (advanceIdeal t s)) = tick (advanceIdeal t' s)"
    and "lastUpdatedAt (advanceIdeal t' (advanceIdeal t s)) = lastUpdatedAt (advanceIdeal t' s)"
proof -
  let ?s1 = "advanceIdeal t s"
  have goal: "tick (advanceIdeal t' ?s1) = tick (advanceIdeal t' s) \<and>
     lastUpdatedAt (advanceIdeal t' ?s1) = lastUpdatedAt (advanceIdeal t' s)"
  proof (cases "t - lastUpdatedAt s \<le> 0 \<or> ticksDue t s \<le> 0")
    case True
    then show ?thesis by (simp add: ideal_unchanged)
  next
    case False
    then have el: "lastUpdatedAt s < t" and k: "0 < ticksDue t s" by auto
    have t1: "tick ?s1 = tick s + ticksDue t s"
      using False by (simp add: advanceIdeal_tick)
    have d1: "ticksDue t' ?s1 = ticksDue t' s - ticksDue t s"
      using ticksDue_after_ideal [OF sp iv, of t' t] t1 by simp
    have mono: "ticksDue t s \<le> ticksDue t' s"
      by (rule ticksDue_mono [OF sp iv le])
    have l1: "lastUpdatedAt ?s1 \<le> t'"
      using ideal_last_le [OF sp iv, of t] el le by simp
    have un: "(t' - lastUpdatedAt ?s1) * speedMultiplier s =
         (t' - lastUpdatedAt s) * speedMultiplier s - of_int (ticksDue t s) * tickIntervalMs s"
      using unconverted_after_ideal [OF sp, of t' t] t1 by simp
    have direct: "\<not> (t' - lastUpdatedAt s \<le> 0 \<or> ticksDue t' s \<le> 0)"
      using el le k mono by simp
    have nz: "speedMultiplier s \<noteq> 0" using sp by simp
    show ?thesis
    proof (cases "t' - lastUpdatedAt ?s1 \<le> 0 \<or> ticksDue t' ?s1 \<le> 0")
      case True
      have z: "ticksDue t' ?s1 = 0"
      proof (cases "ticksDue t' ?s1 \<le> 0")
        case True
        then show ?thesis using d1 mono by simp
      next
        case False
        with True l1 have "t' - lastUpdatedAt ?s1 = 0" by simp
        then show ?thesis by (simp add: ticksDue_def)
      qed
      have same: "advanceIdeal t' ?s1 = ?s1"
        using True by (rule ideal_unchanged)
      have dd: "ticksDue t' s = ticksDue t s" using z d1 by simp
      have "lastUpdatedAt (advanceIdeal t' s) =
          t' - ((t' - lastUpdatedAt ?s1) * speedMultiplier s) / speedMultiplier s"
        using direct un dd by (simp add: advanceIdeal_last)
      also have "\<dots> = lastUpdatedAt ?s1" using nz by simp
      finally have "lastUpdatedAt (advanceIdeal t' s) = lastUpdatedAt ?s1" .
      moreover have "tick (advanceIdeal t' s) = tick ?s1"
        using direct dd t1 by (simp add: advanceIdeal_tick)
      ultimately show ?thesis using same by simp
    next
      case False
      have tk: "tick (advanceIdeal t' ?s1) = tick (advanceIdeal t' s)"
        using False direct t1 d1 by (simp add: advanceIdeal_tick)
      have "lastUpdatedAt (advanceIdeal t' ?s1) =
          t' - ((t' - lastUpdatedAt ?s1) * speedMultiplier s
                 - of_int (ticksDue t' ?s1) * tickIntervalMs s) / speedMultiplier s"
        using False by (simp add: advanceIdeal_last advanceIdeal_params)
      also have "\<dots> = t' - ((t' - lastUpdatedAt s) * speedMultiplier s
                 - of_int (ticksDue t' s) * tickIntervalMs s) / speedMultiplier s"
        unfolding un d1 by (simp add: algebra_simps)
      also have "\<dots> = lastUpdatedAt (advanceIdeal t' s)"
        using direct by (simp add: advanceIdeal_last)
      finally show ?thesis using tk by simp
    qed
  qed
  from goal show "tick (advanceIdeal t' (advanceIdeal t s)) = tick (advanceIdeal t' s)"
    by simp
  from goal show "lastUpdatedAt (advanceIdeal t' (advanceIdeal t s)) = lastUpdatedAt (advanceIdeal t' s)"
    by simp
qed

lemma idealEach_params:
  "speedMultiplier (idealEach ds t s) = speedMultiplier s"
  "tickIntervalMs (idealEach ds t s) = tickIntervalMs s"
  by (induction ds arbitrary: t s) (simp_all add: advanceIdeal_params)

lemma ideal_tick_formula:
  assumes "0 < speedMultiplier s" "0 < tickIntervalMs s" "lastUpdatedAt s \<le> now"
  shows "tick (advanceIdeal now s) = tick s + ticksDue now s"
proof (cases "now - lastUpdatedAt s \<le> 0")
  case True
  with assms(3) have "now - lastUpdatedAt s = 0" by simp
  then have "ticksDue now s = 0" by (simp add: ticksDue_def)
  then show ?thesis by (simp add: advanceIdeal_tick)
next
  case False
  then show ?thesis
    using ticksDue_nonneg [OF assms] by (auto simp add: advanceIdeal_tick)
qed

lemma idealEach_collapse:
  assumes "0 < speedMultiplier s" "0 < tickIntervalMs s" "ds \<noteq> []" "\<forall>d\<in>set ds. 0 \<le> d"
  shows "tick (idealEach ds t s) = tick (advanceIdeal (t + sum_list ds) s) \<and>
         lastUpdatedAt (idealEach ds t s) = lastUpdatedAt (advanceIdeal (t + sum_list ds) s)"
  using assms
proof (induction ds arbitrary: t s)
  case Nil
  then show ?case by simp
next
  case (Cons d ds)
  show ?case
  proof (cases "ds = []")
    case True
    then show ?thesis by simp
  next
    case False
    let ?s1 = "advanceIdeal (t + d) s"
    have sp1: "0 < speedMultiplier ?s1" and iv1: "0 < tickIntervalMs ?s1"
      using Cons.prems(1,2) by (simp_all add: advanceIdeal_params)
    have nn: "\<forall>x\<in>set ds. 0 \<le> x" using Cons.prems(4) by simp
    have later: "t + d \<le> t + d + sum_list ds"
      using nn by (simp add: sum_list_nonneg)
    have ih: "tick (idealEach ds (t + d) ?s1) = tick (advanceIdeal (t + d + sum_list ds) ?s1) \<and>
        lastUpdatedAt (idealEach ds (t + d) ?s1) =
          lastUpdatedAt (advanceIdeal (t + d + sum_list ds) ?s1)"
      by (rule Cons.IH [OF sp1 iv1 False nn])
    have tw: "tick (advanceIdeal (t + d + sum_list ds) ?s1) = tick (advanceIdeal (t + d + sum_list ds) s)"
      "lastUpdatedAt (advanceIdeal (t + d + sum_list ds) ?s1) =
         lastUpdatedAt (advanceIdeal (t + d + sum_list ds) s)"
      using ideal_twice [OF Cons.prems(1,2) later] by simp_all
    show ?thesis using ih tw by (simp add: add.assoc)
  qed
qed



subsection \<open>Elapsed-time conversion in binary64\<close>

lemma advance_None_params:
  "speedMultiplier (advance None now s) = speedMultiplier s"
  "tickIntervalMs (advance None now s) = tickIntervalMs s"
  by (simp_all add: advance_def Let_def applyTickAdvance_fields)

lemma exact_advance:
  assumes "exactCall now s"
  shows "advance None now s = advanceIdeal now s"
proof -
  define e where "e = now - lastUpdatedAt s"
  define sc where "sc = e * speedMultiplier s"
  define k where "k = \<lfloor>sc / tickIntervalMs s\<rfloor>"
  define cv where "cv = of_int k * tickIntervalMs s"
  define lr where "lr = (sc - cv) / speedMultiplier s"
  have ideal: "advanceIdeal now s =
      (if e \<le> 0 then s else if k \<le> 0 then s
       else applyTickAdvance k (s\<lparr>lastUpdatedAt := now - lr\<rparr>))"
    unfolding advanceIdeal_def Let_def e_def sc_def k_def cv_def lr_def ..
  have real: "advance None now s =
      (if binary64 e \<le> 0 then s
       else if \<lfloor>binary64 (binary64 (binary64 e * speedMultiplier s) / tickIntervalMs s)\<rfloor> \<le> 0 then s
       else applyTickAdvance
              \<lfloor>binary64 (binary64 (binary64 e * speedMultiplier s) / tickIntervalMs s)\<rfloor>
              (s\<lparr>lastUpdatedAt :=
                   binary64 (now - binary64 (binary64 (binary64 (binary64 e * speedMultiplier s) -
                     binary64 (of_int \<lfloor>binary64 (binary64 (binary64 e * speedMultiplier s) /
                        tickIntervalMs s)\<rfloor> * tickIntervalMs s)) / speedMultiplier s))\<rparr>))"
    unfolding advance_def Let_def e_def js_sub_def js_mul_def js_div_def by simp
  have ex: "binary64 e = e \<and>
      (if e \<le> 0 then True
       else binary64 sc = sc \<and> \<lfloor>binary64 (sc / tickIntervalMs s)\<rfloor> = k \<and>
            (if k \<le> 0 then True
             else binary64 cv = cv \<and> binary64 (sc - cv) = sc - cv \<and> binary64 lr = lr \<and>
                  binary64 (now - lr) = now - lr))"
    using assms unfolding exactCall_def Let_def e_def sc_def k_def cv_def lr_def .
  then have e: "binary64 e = e" by simp
  show ?thesis
  proof (cases "e \<le> 0")
    case True
    then show ?thesis unfolding ideal real e by simp
  next
    case False
    then have sc: "binary64 (e * speedMultiplier s) = sc"
      and k: "\<lfloor>binary64 (sc / tickIntervalMs s)\<rfloor> = k"
      using ex by (simp_all add: sc_def)
    show ?thesis
    proof (cases "k \<le> 0")
      case True
      then show ?thesis unfolding ideal real e sc k using False by simp
    next
      case nonzero: False
      then have rest: "binary64 (of_int k * tickIntervalMs s) = cv" "binary64 (sc - cv) = sc - cv"
        "binary64 ((sc - cv) / speedMultiplier s) = lr" "binary64 (now - lr) = now - lr"
        using ex False by (simp_all add: cv_def lr_def)
      show ?thesis unfolding ideal real e sc k rest using False nonzero by simp
    qed
  qed
qed

lemma exactRun_each:
  "exactRun ds t s \<Longrightarrow> advanceEach ds t s = idealEach ds t s"
proof (induction ds arbitrary: t s)
  case Nil
  then show ?case by simp
next
  case (Cons d ds)
  then have c: "exactCall (t + d) s" and r: "exactRun ds (t + d) (advance None (t + d) s)"
    by simp_all
  show ?case using Cons.IH [OF r] by (simp add: exact_advance [OF c])
qed

lemma exact_no_drift:
  assumes "0 < speedMultiplier s" "0 < tickIntervalMs s" "ds \<noteq> []" "\<forall>d\<in>set ds. 0 \<le> d"
    and run: "exactRun ds t s" and one: "exactCall (t + sum_list ds) s"
  shows "tick (advanceEach ds t s) = tick (advance None (t + sum_list ds) s)"
    and "lastUpdatedAt (advanceEach ds t s) = lastUpdatedAt (advance None (t + sum_list ds) s)"
    and "lastUpdatedAt s \<le> t \<Longrightarrow> tick (advanceEach ds t s) = tick s + ticksDue (t + sum_list ds) s"
proof -
  note c = idealEach_collapse [OF assms(1-4), of t]
  show "tick (advanceEach ds t s) = tick (advance None (t + sum_list ds) s)"
    using c by (simp add: exactRun_each [OF run] exact_advance [OF one])
  show "lastUpdatedAt (advanceEach ds t s) = lastUpdatedAt (advance None (t + sum_list ds) s)"
    using c by (simp add: exactRun_each [OF run] exact_advance [OF one])
  assume le: "lastUpdatedAt s \<le> t"
  have "0 \<le> sum_list ds" using assms(4) by (simp add: sum_list_nonneg)
  then have "lastUpdatedAt s \<le> t + sum_list ds" using le by simp
  then have "tick (advanceIdeal (t + sum_list ds) s) = tick s + ticksDue (t + sum_list ds) s"
    by (rule ideal_tick_formula [OF assms(1,2)])
  then show "tick (advanceEach ds t s) = tick s + ticksDue (t + sum_list ds) s"
    using c by (simp add: exactRun_each [OF run])
qed


lemma int_bound_rat: "\<bar>n\<bar> < 2 ^ 53 \<Longrightarrow> \<bar>rat_of_int n\<bar> < 2 ^ 53"
proof -
  assume "\<bar>n\<bar> < 2 ^ 53"
  then have "rat_of_int \<bar>n\<bar> < rat_of_int (2 ^ 53)" by (simp only: of_int_less_iff)
  then show ?thesis by simp
qed

lemma exactCall_whole:
  assumes sp: "speedMultiplier s = 1"
    and iv: "tickIntervalMs s = of_int iv" "0 < iv" "iv < 2 ^ 53"
    and l: "lastUpdatedAt s = of_int l" "0 \<le> l" "l < 2 ^ 53"
    and n: "0 \<le> n" "n < 2 ^ 53"
  shows "exactCall (of_int n) s \<and>
     (\<exists>l'. lastUpdatedAt (advanceIdeal (of_int n) s) = of_int l' \<and> 0 \<le> l' \<and> l' < 2 ^ 53)"
proof -
  define a where "a = n - l"
  have abound: "\<bar>a\<bar> < 2 ^ 53" using l n unfolding a_def by linarith
  have e: "rat_of_int n - lastUpdatedAt s = of_int a" by (simp add: l a_def)
  have be: "binary64 (rat_of_int a) = of_int a" by (rule binary64_of_int [OF abound])
  show ?thesis
  proof (cases "a \<le> 0")
    case True
    have c: "exactCall (of_int n) s"
      unfolding exactCall_def Let_def e using be True by simp
    have "advanceIdeal (of_int n) s = s"
      unfolding advanceIdeal_def Let_def e using True by simp
    then show ?thesis using c l by auto
  next
    case False
    define k where "k = a div iv"
    have sc: "rat_of_int a * speedMultiplier s = of_int a" by (simp add: sp)
    have q: "\<lfloor>rat_of_int a / tickIntervalMs s\<rfloor> = k"
      by (simp add: iv k_def floor_divide_of_int_eq)
    have bq: "\<lfloor>binary64 (rat_of_int a / tickIntervalMs s)\<rfloor> = k"
      using floor_binary64_quotient [of a iv] False abound iv by (simp add: k_def)
    show ?thesis
    proof (cases "k \<le> 0")
      case True
      have c: "exactCall (of_int n) s"
        unfolding exactCall_def Let_def e sc q using be bq True False by simp
      have "advanceIdeal (of_int n) s = s"
        unfolding advanceIdeal_def Let_def e sc q using True False by simp
      then show ?thesis using c l by auto
    next
      case kpos: False
      have md: "a - k * iv = a mod iv" unfolding k_def by (rule minus_div_mult_eq_mod)
      have m0: "0 \<le> a mod iv" and m1: "a mod iv < iv" using iv by simp_all
      have kiv: "0 \<le> k * iv" using kpos iv by simp
      have ma: "a mod iv \<le> a" using md kiv by linarith
      have cv: "rat_of_int k * tickIntervalMs s = of_int (k * iv)" by (simp add: iv)
      have bcv: "binary64 (rat_of_int (k * iv)) = of_int (k * iv)"
        using md m0 kiv abound by (intro binary64_of_int) linarith
      have lo: "rat_of_int a - rat_of_int (k * iv) = of_int (a mod iv)"
        using md by (metis of_int_diff)
      have blo: "binary64 (rat_of_int (a mod iv)) = of_int (a mod iv)"
        using m0 ma abound by (intro binary64_of_int) linarith
      have lr: "rat_of_int (a mod iv) / speedMultiplier s = of_int (a mod iv)" by (simp add: sp)
      have nl: "rat_of_int n - rat_of_int (a mod iv) = of_int (n - a mod iv)" by simp
      have r0: "0 \<le> n - a mod iv" and r1: "n - a mod iv < 2 ^ 53"
        using ma m0 l n unfolding a_def by linarith+
      have bnl: "binary64 (rat_of_int (n - a mod iv)) = of_int (n - a mod iv)"
        using r0 r1 by (intro binary64_of_int) linarith
      have c: "exactCall (of_int n) s"
        unfolding exactCall_def Let_def e sc q cv lo lr nl
        using be bq bcv blo bnl kpos False by simp
      have "lastUpdatedAt (advanceIdeal (of_int n) s) = of_int (n - a mod iv)"
        unfolding advanceIdeal_def Let_def e sc q cv lo lr nl
        using kpos False by (simp add: applyTickAdvance_fields)
      then show ?thesis using c r0 r1 by blast
    qed
  qed
qed

lemma exactRun_whole:
  assumes "speedMultiplier s = 1" "tickIntervalMs s = of_int iv" "0 < iv" "iv < 2 ^ 53"
    "lastUpdatedAt s = of_int l" "0 \<le> l" "l < 2 ^ 53"
    "0 \<le> t0" "\<forall>n\<in>set ns. 0 \<le> n" "t0 + sum_list ns < 2 ^ 53"
  shows "exactRun (map of_int ns) (of_int t0) s"
  using assms
proof (induction ns arbitrary: t0 s l)
  case Nil
  then show ?case by simp
next
  case (Cons n ns)
  have nn: "0 \<le> n" "\<forall>m\<in>set ns. 0 \<le> m" using Cons.prems(9) by simp_all
  have rest: "0 \<le> sum_list ns" using nn(2) by (simp add: sum_list_nonneg)
  have t1: "0 \<le> t0 + n" "t0 + n < 2 ^ 53" "t0 + n + sum_list ns < 2 ^ 53"
    using Cons.prems(8,10) nn(1) rest by simp_all
  note w = exactCall_whole [OF Cons.prems(1-7) t1(1,2)]
  from w have c: "exactCall (of_int (t0 + n)) s" by simp
  let ?s1 = "advance None (of_int (t0 + n)) s"
  have same: "?s1 = advanceIdeal (of_int (t0 + n)) s" by (rule exact_advance [OF c])
  from w same obtain l' where l': "lastUpdatedAt ?s1 = of_int l'" "0 \<le> l'" "l' < 2 ^ 53"
    by auto
  have p: "speedMultiplier ?s1 = 1" "tickIntervalMs ?s1 = of_int iv"
    using Cons.prems(1,2) by (simp_all add: advance_None_params)
  have "exactRun (map of_int ns) (of_int (t0 + n)) ?s1"
    by (rule Cons.IH [OF p Cons.prems(3,4) l' t1(1) nn(2) t1(3)])
  then show ?case using c by simp
qed

lemma whole_ms_no_drift:
  assumes "speedMultiplier s = 1" "tickIntervalMs s = of_int iv" "0 < iv" "iv < 2 ^ 53"
    "lastUpdatedAt s = of_int l" "0 \<le> l" "l < 2 ^ 53"
    "0 \<le> t0" "ns \<noteq> []" "\<forall>n\<in>set ns. 0 \<le> n" "t0 + sum_list ns < 2 ^ 53"
  shows "exactRun (map of_int ns) (of_int t0) s"
    and "exactCall (of_int (t0 + sum_list ns)) s"
    and "tick (advanceEach (map of_int ns) (of_int t0) s) =
         tick (advance None (of_int (t0 + sum_list ns)) s)"
    and "l \<le> t0 \<Longrightarrow>
         tick (advanceEach (map of_int ns) (of_int t0) s) = tick s + (t0 + sum_list ns - l) div iv"
proof -
  have total: "0 \<le> sum_list ns" using assms(10) by (simp add: sum_list_nonneg)
  then have tt: "0 \<le> t0 + sum_list ns" using assms(8) by simp
  show run: "exactRun (map of_int ns) (of_int t0) s"
    by (rule exactRun_whole [OF assms(1-8,10,11)])
  show one: "exactCall (of_int (t0 + sum_list ns)) s"
    using exactCall_whole [OF assms(1-7) tt assms(11)] by simp
  have sl: "sum_list (map rat_of_int ns) = of_int (sum_list ns)"
    by (induction ns) simp_all
  have sp: "0 < speedMultiplier s" and ivp: "0 < tickIntervalMs s"
    using assms(1,2,3) by simp_all
  have ne: "map rat_of_int ns \<noteq> []" using assms(9) by simp
  have nn: "\<forall>d\<in>set (map rat_of_int ns). 0 \<le> d" using assms(10) by simp
  have one': "exactCall (of_int t0 + sum_list (map rat_of_int ns)) s"
    using one by (simp add: sl)
  note nd = exact_no_drift [OF sp ivp ne nn run one']
  show "tick (advanceEach (map of_int ns) (of_int t0) s) =
         tick (advance None (of_int (t0 + sum_list ns)) s)"
    using nd(1) by (simp add: sl)
  assume le: "l \<le> t0"
  then have "lastUpdatedAt s \<le> of_int t0" by (simp add: assms(5))
  from nd(3) [OF this]
  have "tick (advanceEach (map of_int ns) (of_int t0) s) =
      tick s + ticksDue (of_int (t0 + sum_list ns)) s" by (simp add: sl)
  moreover have "ticksDue (of_int (t0 + sum_list ns)) s = (t0 + sum_list ns - l) div iv"
  proof -
    have "(rat_of_int (t0 + sum_list ns) - lastUpdatedAt s) * speedMultiplier s / tickIntervalMs s
        = rat_of_int (t0 + sum_list ns - l) / rat_of_int iv"
      by (simp add: assms(1,2,5))
    then show ?thesis unfolding ticksDue_def by (simp only: floor_divide_of_int_eq)
  qed
  ultimately show "tick (advanceEach (map of_int ns) (of_int t0) s) =
      tick s + (t0 + sum_list ns - l) div iv" by simp
qed

text \<open>
  C7. For every non-negative tick the day phase depends on the tick only through
  \<open>tick mod ticksPerDay\<close>, and the day is cut into four phases of equal length
  \<open>periodLen = ticksPerDay / 4\<close>: the ticks \<open>0 .. periodLen - 1\<close> of a day are dawn,
  \<open>periodLen .. 2 * periodLen - 1\<close> are day, \<open>2 * periodLen .. 3 * periodLen - 1\<close> are
  dusk and \<open>3 * periodLen .. 4 * periodLen - 1\<close> are night.
\<close>

theorem resolvePeriod_phases:
  assumes "0 \<le> t"
  shows "let periodLen = ticksPerDay div 4; n = t mod ticksPerDay in
           4 * periodLen = ticksPerDay \<and>
           resolvePeriod t = resolvePeriod n \<and>
           (0 \<le> n \<and> n \<le> periodLen - 1 \<longrightarrow> resolvePeriod t = Dawn) \<and>
           (periodLen \<le> n \<and> n \<le> 2 * periodLen - 1 \<longrightarrow> resolvePeriod t = Day) \<and>
           (2 * periodLen \<le> n \<and> n \<le> 3 * periodLen - 1 \<longrightarrow> resolvePeriod t = Dusk) \<and>
           (3 * periodLen \<le> n \<and> n \<le> 4 * periodLen - 1 \<longrightarrow> resolvePeriod t = Night) \<and>
           0 \<le> n \<and> n \<le> 4 * periodLen - 1"
proof -
  have m: "0 \<le> t mod 240" "t mod 240 < 240" by simp_all
  have r: "resolvePeriod (t mod 240) = resolvePeriod t"
    using resolvePeriod_nonneg [OF assms] resolvePeriod_nonneg [OF m(1)] by simp
  show ?thesis
    using m r resolvePeriod_nonneg [OF assms]
    by (simp add: ticksPerDay_def Let_def)
qed

theorem resolvePeriod_phases_witness:
  "(0::int) \<le> 500 \<and> resolvePeriod 500 = Dawn \<and> resolvePeriod 310 = Day \<and>
   resolvePeriod 379 = Dusk \<and> resolvePeriod 180 = Night \<and> resolvePeriod 239 = Night \<and>
   resolvePeriod 240 = Dawn"
  using resolvePeriod_phases [of 500] resolvePeriod_phases [of 310] resolvePeriod_phases [of 379]
    resolvePeriod_phases [of 180] resolvePeriod_phases [of 239] resolvePeriod_phases [of 240]
  by (simp add: ticksPerDay_def Let_def resolvePeriod_nonneg)

text \<open>
  C3 as stated fails on the code. A clock with a tick interval of 50 ms at speed 3 whose
  time reference is 0: one \<^verbatim>\<open>advance()\<close> at 50 ms counts \<open>\<lfloor>50 * 3 / 50\<rfloor> = 3\<close> ticks;
  a call at 17 ms and a second one at 50 ms count 2. The first call carries the remainder
  \<open>1 / 3\<close>, which is rounded; the time reference becomes 16.666666666666668, and the
  second call computes the elapsed time 33.33333333333333, the scaled time
  99.99999999999999 and the quotient 1.9999999999999998, whose floor is 1.
\<close>

theorem advance_drifts_at_triple_speed:
  "0 < speedMultiplier tripleSpeedClock \<and> 0 < tickIntervalMs tripleSpeedClock \<and>
   lastUpdatedAt tripleSpeedClock = 0 \<and> tick tripleSpeedClock = 0 \<and>
   sum_list [17, 33 :: rat] = 50 \<and>
   tick (advance None 50 tripleSpeedClock) = 3 \<and>
   tick (advanceEach [17, 33] 0 tripleSpeedClock) = 2 \<and>
   tick (advanceEach [17, 33] 0 tripleSpeedClock) \<noteq>
     tick (advance None (0 + sum_list [17, 33]) tripleSpeedClock) \<and>
   lastUpdatedAt (advance None 17 tripleSpeedClock) = 4691249611844267 / 281474976710656 \<and>
   js_sub 50 (lastUpdatedAt (advance None 17 tripleSpeedClock)) =
     2345624805922133 / 70368744177664 \<and>
   js_mul (2345624805922133 / 70368744177664) 3 = 7036874417766399 / 70368744177664 \<and>
   js_div (7036874417766399 / 70368744177664) 50 = 9007199254740991 / 4503599627370496"
  by code_simp

text \<open>
  C3 as amended. With a positive speed multiplier and tick interval, when every call of a
  run of \<^verbatim>\<open>advance()\<close> calls after non-negative intervals is exact, and the single call
  after the summed interval is exact, the run leaves the clock at the same tick and with
  the same time reference as the single call, and when the time reference is not in the
  future that tick is the starting tick plus
  \<open>\<lfloor>elapsed * speedMultiplier / tickIntervalMs\<rfloor>\<close> for the whole elapsed time. The calls
  are all exact when the speed multiplier is 1, the tick interval is a whole number of
  milliseconds and the time reference and the readings of \<^verbatim>\<open>Date.now()\<close> are whole
  milliseconds, all from 0 to below \<open>2 ^ 53\<close>: then no run of calls loses a tick.
\<close>

theorem advance_no_drift_when_exact:
  "(0 < speedMultiplier s \<and> 0 < tickIntervalMs s \<and> ds \<noteq> [] \<and> (\<forall>d\<in>set ds. 0 \<le> d) \<and>
    exactRun ds t s \<and> exactCall (t + sum_list ds) s \<longrightarrow>
      tick (advanceEach ds t s) = tick (advance None (t + sum_list ds) s) \<and>
      lastUpdatedAt (advanceEach ds t s) = lastUpdatedAt (advance None (t + sum_list ds) s) \<and>
      (lastUpdatedAt s \<le> t \<longrightarrow>
         tick (advanceEach ds t s) =
           tick s + \<lfloor>(t + sum_list ds - lastUpdatedAt s) * speedMultiplier s / tickIntervalMs s\<rfloor>)) \<and>
   (speedMultiplier s = 1 \<and> tickIntervalMs s = of_int iv \<and> 0 < iv \<and> iv < 2 ^ 53 \<and>
    lastUpdatedAt s = of_int l \<and> 0 \<le> l \<and> l < 2 ^ 53 \<and>
    0 \<le> t0 \<and> ns \<noteq> [] \<and> (\<forall>n\<in>set ns. 0 \<le> n) \<and> t0 + sum_list ns < 2 ^ 53 \<longrightarrow>
      exactRun (map of_int ns) (of_int t0) s \<and>
      exactCall (of_int (t0 + sum_list ns)) s \<and>
      tick (advanceEach (map of_int ns) (of_int t0) s) =
        tick (advance None (of_int (t0 + sum_list ns)) s) \<and>
      (l \<le> t0 \<longrightarrow>
         tick (advanceEach (map of_int ns) (of_int t0) s) =
           tick s + (t0 + sum_list ns - l) div iv))"
proof (intro conjI impI)
  assume h: "0 < speedMultiplier s \<and> 0 < tickIntervalMs s \<and> ds \<noteq> [] \<and> (\<forall>d\<in>set ds. 0 \<le> d) \<and>
    exactRun ds t s \<and> exactCall (t + sum_list ds) s"
  then have h1: "0 < speedMultiplier s" and h2: "0 < tickIntervalMs s" and h3: "ds \<noteq> []"
    and h4: "\<forall>d\<in>set ds. 0 \<le> d" and h5: "exactRun ds t s"
    and h6: "exactCall (t + sum_list ds) s"
    by simp_all
  note nd = exact_no_drift [OF h1 h2 h3 h4 h5 h6]
  show "tick (advanceEach ds t s) = tick (advance None (t + sum_list ds) s)" by (rule nd(1))
  show "lastUpdatedAt (advanceEach ds t s) = lastUpdatedAt (advance None (t + sum_list ds) s)"
    by (rule nd(2))
  assume "lastUpdatedAt s \<le> t"
  from nd(3) [OF this]
  show "tick (advanceEach ds t s) =
      tick s + \<lfloor>(t + sum_list ds - lastUpdatedAt s) * speedMultiplier s / tickIntervalMs s\<rfloor>"
    by (simp add: ticksDue_def)
next
  assume h: "speedMultiplier s = 1 \<and> tickIntervalMs s = of_int iv \<and> 0 < iv \<and> iv < 2 ^ 53 \<and>
    lastUpdatedAt s = of_int l \<and> 0 \<le> l \<and> l < 2 ^ 53 \<and>
    0 \<le> t0 \<and> ns \<noteq> [] \<and> (\<forall>n\<in>set ns. 0 \<le> n) \<and> t0 + sum_list ns < 2 ^ 53"
  then have h1: "speedMultiplier s = 1" and h2: "tickIntervalMs s = of_int iv"
    and h3: "0 < iv" and h4: "iv < 2 ^ 53" and h5: "lastUpdatedAt s = of_int l"
    and h6: "0 \<le> l" and h7: "l < 2 ^ 53" and h8: "0 \<le> t0" and h9: "ns \<noteq> []"
    and h10: "\<forall>n\<in>set ns. 0 \<le> n" and h11: "t0 + sum_list ns < 2 ^ 53"
    by simp_all
  note w = whole_ms_no_drift [OF h1 h2 h3 h4 h5 h6 h7 h8 h9 h10 h11]
  show "exactRun (map of_int ns) (of_int t0) s" by (rule w(1))
  show "exactCall (of_int (t0 + sum_list ns)) s" by (rule w(2))
  show "tick (advanceEach (map of_int ns) (of_int t0) s) =
        tick (advance None (of_int (t0 + sum_list ns)) s)" by (rule w(3))
  assume "l \<le> t0"
  then show "tick (advanceEach (map of_int ns) (of_int t0) s) =
           tick s + (t0 + sum_list ns - l) div iv" by (rule w(4))
qed

theorem advance_no_drift_when_exact_witness:
  "0 < speedMultiplier exampleClock \<and> 0 < tickIntervalMs exampleClock \<and>
   [30, 30, 30] \<noteq> ([] :: rat list) \<and> list_all (\<lambda>d. 0 \<le> d) [30, 30, 30 :: rat] \<and>
   exactRun [30, 30, 30] 0 exampleClock \<and> exactCall (0 + sum_list [30, 30, 30]) exampleClock \<and>
   lastUpdatedAt exampleClock \<le> 0 \<and>
   tick (advanceEach [30, 30, 30] 0 exampleClock) = tick (advance None 90 exampleClock) \<and>
   tick (advanceEach [30, 30, 30] 0 exampleClock) = 3 \<and>
   speedMultiplier (timeManager exampleGame) = 1 \<and>
   tickIntervalMs (timeManager exampleGame) = of_int 50 \<and>
   lastUpdatedAt (timeManager exampleGame) = of_int 1000 \<and>
   (0::int) < 50 \<and> (50::int) < 2 ^ 53 \<and> (0::int) \<le> 1000 \<and> (1000::int) < 2 ^ 53 \<and>
   [16, 17, 17, 20, 30] \<noteq> ([] :: int list) \<and> list_all (\<lambda>n. 0 \<le> n) [16, 17, 17, 20, 30 :: int] \<and>
   1000 + sum_list [16, 17, 17, 20, 30 :: int] < 2 ^ 53 \<and>
   exactRun (map of_int [16, 17, 17, 20, 30]) (of_int 1000) (timeManager exampleGame) \<and>
   tick (advanceEach (map of_int [16, 17, 17, 20, 30]) (of_int 1000) (timeManager exampleGame)) =
     tick (advance None (of_int 1100) (timeManager exampleGame)) \<and>
   tick (advanceEach (map of_int [16, 17, 17, 20, 30]) (of_int 1000) (timeManager exampleGame)) = 2"
proof -
  have h1: "0 < speedMultiplier exampleClock" "0 < tickIntervalMs exampleClock"
    "lastUpdatedAt exampleClock \<le> 0" "tick exampleClock = 0"
    by (simp_all add: exampleClock_def)
  have h3: "[30, 30, 30] \<noteq> ([] :: rat list)" "\<forall>d\<in>set [30, 30, 30 :: rat]. 0 \<le> d"
    by simp_all
  have run: "exactRun [30, 30, 30] 0 exampleClock" by code_simp
  have one: "exactCall (0 + sum_list [30, 30, 30]) exampleClock" by code_simp
  have fl: "\<lfloor>(18::rat) / 5\<rfloor> = 3" by (simp add: floor_eq_iff)
  note a = advance_no_drift_when_exact [of exampleClock "[30, 30, 30]" 0 0 0 0 "[]"]
  have A: "tick (advanceEach [30, 30, 30] 0 exampleClock) = tick (advance None 90 exampleClock)"
    "tick (advanceEach [30, 30, 30] 0 exampleClock) = 3"
    using a h1 h3 run one fl by (simp_all add: exampleClock_def)
  have g: "speedMultiplier (timeManager exampleGame) = 1"
    "tickIntervalMs (timeManager exampleGame) = of_int 50"
    "lastUpdatedAt (timeManager exampleGame) = of_int 1000"
    "tick (timeManager exampleGame) = 0"
    by (simp_all add: exampleGame_def start_def newGameClock_def)
  have n: "(0::int) < 50" "(50::int) < 2 ^ 53" "(0::int) \<le> 1000" "(1000::int) < 2 ^ 53"
    "[16, 17, 17, 20, 30] \<noteq> ([] :: int list)" "\<forall>n\<in>set [16, 17, 17, 20, 30 :: int]. 0 \<le> n"
    "1000 + sum_list [16, 17, 17, 20, 30 :: int] < 2 ^ 53"
    by simp_all
  note b = advance_no_drift_when_exact
    [of "timeManager exampleGame" "[]" 0 50 1000 1000 "[16, 17, 17, 20, 30]"]
  have B: "exactRun (map of_int [16, 17, 17, 20, 30]) (of_int 1000) (timeManager exampleGame)"
    "tick (advanceEach (map of_int [16, 17, 17, 20, 30]) (of_int 1000) (timeManager exampleGame)) =
     tick (advance None (of_int 1100) (timeManager exampleGame))"
    "tick (advanceEach (map of_int [16, 17, 17, 20, 30]) (of_int 1000) (timeManager exampleGame)) = 2"
    using b g n by simp_all
  show ?thesis using h1 h3 run one A g n B by simp
qed

text \<open>
  C4 (the code at the failing inputs). A clock as \<^verbatim>\<open>Game\<close> constructs it, at tick 0 in
  the dawn phase with one phase-change listener, restores a snapshot taken at tick 100 in
  the day phase: the phase changes from dawn to day and no listener is called. Restoring
  a snapshot whose stored phase is night at tick 500 leaves the clock in the night phase,
  while tick 500 computed directly is dawn. In both cases \<^verbatim>\<open>applyTickAdvance(0)\<close>
  returns at its first line.
\<close>

theorem restore_skips_phase_sync:
  "timeOfDay (newGameClock 1000) = Dawn \<and>
   timeOfDay (restore (exampleSnapshot 100 Day) 1000 (newGameClock 1000)) = Day \<and>
   listeners (restore (exampleSnapshot 100 Day) 1000 (newGameClock 1000)) = 1 \<and>
   notifications (restore (exampleSnapshot 100 Day) 1000 (newGameClock 1000)) = [] \<and>
   timeOfDay (restore (exampleSnapshot 500 Night) 1000 (newGameClock 1000)) = Night \<and>
   resolvePeriod 500 = Dawn"
  using resolvePeriod_nonneg [of 0] resolvePeriod_nonneg [of 500]
  by (simp add: restore_def applyTickAdvance_def newGameClock_def exampleSnapshot_def)

text \<open>
  C5 (the code at the failing inputs). One iteration of the game loop 50 ms after the
  previous one, with a 50 ms tick interval and speed 1: the clock moves on by 50 ticks,
  the number of milliseconds, where \<open>\<lfloor>50 * 1 / 50\<rfloor> = 1\<close> tick is due. The delta is passed
  as the \<^verbatim>\<open>forceTicks\<close> argument of \<^verbatim>\<open>advance\<close>. With the second
  \<^verbatim>\<open>TimeManager\<close> class the same iteration adds 1 tick, but two iterations 30 ms apart
  add none where \<open>\<lfloor>60 * 1 / 50\<rfloor> = 1\<close> is due: the remainder is not carried.
\<close>

theorem game_loop_counts_ms_as_ticks:
  "tick (timeManager exampleGame) = 0 \<and>
   tickIntervalMs (timeManager exampleGame) = 50 \<and>
   speedMultiplier (timeManager exampleGame) = 1 \<and>
   tick (timeManager (gameLoopIteration 1050 exampleGame)) = 50 \<and>
   \<lfloor>(1050 - 1000 :: rat) * 1 / 50\<rfloor> = 1 \<and>
   tick (timeManager (gameLoopIterationDelta 1050 exampleGame)) = 1 \<and>
   tick (timeManager (gameLoopIterationDelta 1060 (gameLoopIterationDelta 1030 exampleGame))) = 0 \<and>
   \<lfloor>(1060 - 1000 :: rat) * 1 / 50\<rfloor> = 1"
proof -
  have f1: "\<lfloor>js_div (js_mul 30 1) 50\<rfloor> = 0" by code_simp
  have f2: "\<lfloor>js_div (js_mul 50 1) 50\<rfloor> = 1" by code_simp
  have f3: "\<lfloor>(6::rat) / 5\<rfloor> = 1" by (simp add: floor_eq_iff)
  have g1: "js_div (js_mul 30 1) 50 < 1" by code_simp
  have g2: "\<not> js_div (js_mul 50 1) 50 < 1" by code_simp
  show ?thesis
    by (simp add: exampleGame_def gameLoopIteration_def Game_update_def advance_def
        applyTickAdvance_tick newGameClock_def start_def gameLoopIterationDelta_def
        Game_update_delta_def advanceDelta_def Let_def f1 f2 f3 g1 g2)
qed

section \<open>Properties of the terrain grid\<close>

lemma rowsPresent_rowPresent:
  "rowsPresent w \<Longrightarrow> isInBounds w pos \<Longrightarrow> rowPresent w pos"
  by (auto simp add: rowsPresent_def isInBounds_def rowPresent_def)

lemma rowAt_present:
  assumes "isInBounds w pos" "rowPresent w pos"
  shows "rowAt w (pos_y pos) = Some (tiles (worldMap w) ! nat (pos_y pos))"
  using assms by (auto simp add: rowPresent_def isInBounds_def rowAt_def)

lemma js_get_js_set: "0 \<le> i \<Longrightarrow> js_get (js_set xs i v) i = Some v"
  by (simp add: js_get_def js_set_def nth_append)

lemma getTileVersion_eq:
  assumes "isInBounds w pos" "rowPresent w pos"
  shows "getTileVersion w pos =
         versionOrZero (js_get (tiles (worldMap w) ! nat (pos_y pos)) (pos_x pos))"
  using assms rowAt_present [OF assms]
  by (simp add: getTileVersion_def getTile_def versionOrZero_def tileOfType_def
      split: option.splits)

lemma setTile_accept:
  assumes "isInBounds w pos" "rowPresent w pos"
    and "expectedVersion = None \<or> expectedVersion = Some (getTileVersion w pos)"
  shows "setTile w pos tile expectedVersion = (True, written w pos tile)"
  using assms(3) rowAt_present [OF assms(1,2)] getTileVersion_eq [OF assms(1,2)] assms(1)
  by (auto simp add: setTile_def written_def Let_def)

lemma setTile_reject:
  assumes "isInBounds w pos" "rowPresent w pos" "ev \<noteq> getTileVersion w pos"
  shows "setTile w pos tile (Some ev) = (False, w)"
  using assms(3) rowAt_present [OF assms(1,2)] getTileVersion_eq [OF assms(1,2)] assms(1)
  by (auto simp add: setTile_def Let_def)

lemma written_bounds:
  "isInBounds (written w pos tile) p = isInBounds w p"
  by (simp add: written_def isInBounds_def markTileDirty_def Let_def)

lemma written_rowPresent:
  "rowPresent (written w pos tile) p = rowPresent w p"
  by (simp add: written_def rowPresent_def markTileDirty_def Let_def)

lemma written_rowsPresent:
  "rowsPresent w \<Longrightarrow> rowsPresent (written w pos tile)"
  by (simp add: written_def rowsPresent_def markTileDirty_def Let_def)

lemma written_getTile:
  assumes "isInBounds w pos" "rowPresent w pos"
  shows "getTile (written w pos tile) pos = tile\<lparr>tile_version := Some (getTileVersion w pos + 1)\<rparr>"
proof -
  have ib: "isInBounds (written w pos tile) pos" using assms(1) by (simp add: written_bounds)
  have len: "nat (pos_y pos) < length (tiles (worldMap w))"
    using assms(2) by (simp add: rowPresent_def)
  have x0: "0 \<le> pos_x pos" and y0: "0 \<le> pos_y pos" using assms(1) by (simp_all add: isInBounds_def)
  have row: "rowAt (written w pos tile) (pos_y pos) =
      Some (js_set (tiles (worldMap w) ! nat (pos_y pos)) (pos_x pos)
             (tile\<lparr>tile_version := Some (getTileVersion w pos + 1)\<rparr>))"
    using len y0 by (simp add: rowAt_def written_def markTileDirty_def Let_def)
  show ?thesis
    using ib row by (simp add: getTile_def js_get_js_set [OF x0])
qed

lemma written_version:
  assumes "isInBounds w pos" "rowPresent w pos"
  shows "getTileVersion (written w pos tile) pos = getTileVersion w pos + 1"
  using written_getTile [OF assms, of tile] by (simp add: getTileVersion_def)

lemma written_dirty:
  "dirtyTiles (written w pos tile) = insert (pos_x pos, pos_y pos) (dirtyTiles w)"
  by (simp add: written_def markTileDirty_def Let_def)

lemma void_not_harvestable:
  "getTileConfig VOID = Some c \<Longrightarrow> \<not> harvestable c"
  by (auto simp add: getTileConfig_def initTileConfigs_def mkConfig_def)

lemma getTile_outside:
  "\<not> isInBounds w pos \<Longrightarrow> getTile w pos = tileOfType VOID"
  by (simp add: getTile_def)

lemma getTile_no_row:
  "\<not> rowPresent w pos \<Longrightarrow> getTile w pos = tileOfType VOID"
  by (simp add: getTile_def rowAt_def rowPresent_def)

lemma harvestable_present:
  assumes "isHarvestable w pos"
  shows "isInBounds w pos" and "rowPresent w pos"
proof -
  have nv: "getTile w pos \<noteq> tileOfType VOID"
  proof
    assume "getTile w pos = tileOfType VOID"
    then have "tile_type (getTile w pos) = VOID" by (simp add: tileOfType_def)
    then show False
      using assms void_not_harvestable
      by (auto simp add: isHarvestable_def split: option.splits)
  qed
  show "isInBounds w pos" using nv getTile_outside by blast
  show "rowPresent w pos" using nv getTile_no_row by blast
qed

lemma harvest_continue:
  assumes h: "isHarvestable w pos"
    and st: "tile_state (getTile w pos) = Some st" and d: "durability st = Some d"
    and more: "1 < d"
  shows "harvest w pos nowIso =
     (\<lparr>success = True, complete = False, drops = None\<rparr>,
      written w pos
        \<lparr>tile_type = tile_type (getTile w pos),
         tile_state = Some (st\<lparr>durability := Some (d - 1), lastInteractedAt := Some nowIso\<rparr>),
         tile_metadata = None, tile_version = None\<rparr>)"
proof -
  note p = harvestable_present [OF h]
  have ev: "(case tile_version (getTile w pos) of None \<Rightarrow> 0 | Some v \<Rightarrow> v) = getTileVersion w pos"
    by (simp add: getTileVersion_def)
  show ?thesis
    using h st d more
    by (simp add: harvest_def Let_def ev setTile_accept [OF p])
qed

lemma harvest_complete:
  assumes h: "isHarvestable w pos"
    and st: "tile_state (getTile w pos) = Some st" and d: "durability st = Some d"
    and last: "d \<le> 1"
  shows "harvest w pos nowIso =
     (\<lparr>success = True, complete = True, drops = Some (getDrops (tile_type (getTile w pos)))\<rparr>,
      written w pos (tileOfType GRASS))"
proof -
  note p = harvestable_present [OF h]
  have ev: "(case tile_version (getTile w pos) of None \<Rightarrow> 0 | Some v \<Rightarrow> v) = getTileVersion w pos"
    by (simp add: getTileVersion_def)
  show ?thesis
    using h st d last
    by (simp add: harvest_def Let_def ev setTile_accept [OF p])
qed

lemma tree_harvestable:
  assumes "isInBounds w pos" "rowPresent w pos" "tile_type tile = TREE \<or> tile_type tile = ROCK"
  shows "isHarvestable (written w pos tile) pos"
  using assms(3) written_getTile [OF assms(1,2), of tile]
  by (auto simp add: isHarvestable_def getTileConfig_def initTileConfigs_def mkConfig_def)

lemma harvest_continue_after:
  assumes h: "isHarvestable w pos"
    and st: "tile_state (getTile w pos) = Some st" and d: "durability st = Some d"
    and more: "1 < d"
    and ty: "tile_type (getTile w pos) = TREE \<or> tile_type (getTile w pos) = ROCK"
  shows "isHarvestable (snd (harvest w pos nowIso)) pos"
    and "tile_type (getTile (snd (harvest w pos nowIso)) pos) = tile_type (getTile w pos)"
    and "tile_state (getTile (snd (harvest w pos nowIso)) pos) =
           Some (st\<lparr>durability := Some (d - 1), lastInteractedAt := Some nowIso\<rparr>)"
    and "getTileVersion (snd (harvest w pos nowIso)) pos = getTileVersion w pos + 1"
    and "fst (harvest w pos nowIso) = \<lparr>success = True, complete = False, drops = None\<rparr>"
proof -
  note p = harvestable_present [OF h]
  note hc = harvest_continue [OF h st d more, of nowIso]
  show "isHarvestable (snd (harvest w pos nowIso)) pos"
    unfolding hc snd_conv by (rule tree_harvestable [OF p]) (use ty in simp)
  show "tile_type (getTile (snd (harvest w pos nowIso)) pos) = tile_type (getTile w pos)"
    unfolding hc snd_conv by (simp add: written_getTile [OF p])
  show "tile_state (getTile (snd (harvest w pos nowIso)) pos) =
           Some (st\<lparr>durability := Some (d - 1), lastInteractedAt := Some nowIso\<rparr>)"
    unfolding hc snd_conv by (simp add: written_getTile [OF p])
  show "getTileVersion (snd (harvest w pos nowIso)) pos = getTileVersion w pos + 1"
    unfolding hc snd_conv by (rule written_version [OF p])
  show "fst (harvest w pos nowIso) = \<lparr>success = True, complete = False, drops = None\<rparr>"
    unfolding hc by simp
qed

lemma harvest_complete_after:
  assumes h: "isHarvestable w pos"
    and st: "tile_state (getTile w pos) = Some st" and d: "durability st = Some d"
    and last: "d \<le> 1"
  shows "getTile (snd (harvest w pos nowIso)) pos =
           (tileOfType GRASS)\<lparr>tile_version := Some (getTileVersion w pos + 1)\<rparr>"
    and "fst (harvest w pos nowIso) =
           \<lparr>success = True, complete = True, drops = Some (getDrops (tile_type (getTile w pos)))\<rparr>"
proof -
  note p = harvestable_present [OF h]
  note hc = harvest_complete [OF h st d last, of nowIso]
  show "getTile (snd (harvest w pos nowIso)) pos =
           (tileOfType GRASS)\<lparr>tile_version := Some (getTileVersion w pos + 1)\<rparr>"
    unfolding hc snd_conv by (rule written_getTile [OF p])
  show "fst (harvest w pos nowIso) =
           \<lparr>success = True, complete = True, drops = Some (getDrops (tile_type (getTile w pos)))\<rparr>"
    unfolding hc by simp
qed

lemma harvestTimes_1: "harvestTimes (Suc 0) w pos nowIso = ([fst (harvest w pos nowIso)], snd (harvest w pos nowIso))"
  by (simp add: split_def Let_def)

lemma harvestTimes_Suc:
  "harvestTimes (Suc n) w pos nowIso =
     (fst (harvest w pos nowIso) # fst (harvestTimes n (snd (harvest w pos nowIso)) pos nowIso),
      snd (harvestTimes n (snd (harvest w pos nowIso)) pos nowIso))"
  by (simp add: split_def Let_def)

lemma tree_three_harvests:
  assumes h: "isHarvestable w pos"
    and st: "tile_state (getTile w pos) = Some st" and d: "durability st = Some 3"
    and ty: "tile_type (getTile w pos) = TREE"
  shows "fst (harvestTimes 3 w pos nowIso) =
           [\<lparr>success = True, complete = False, drops = None\<rparr>,
            \<lparr>success = True, complete = False, drops = None\<rparr>,
            \<lparr>success = True, complete = True, drops = Some [''wood'', ''wood'', ''wood'']\<rparr>]"
    and "tile_type (getTile (snd (harvestTimes 1 w pos nowIso)) pos) = TREE"
    and "tile_type (getTile (snd (harvestTimes 2 w pos nowIso)) pos) = TREE"
    and "getTile (snd (harvestTimes 3 w pos nowIso)) pos =
           (tileOfType GRASS)\<lparr>tile_version := Some (getTileVersion w pos + 3)\<rparr>"
proof -
  let ?w1 = "snd (harvest w pos nowIso)"
  let ?w2 = "snd (harvest ?w1 pos nowIso)"
  let ?w3 = "snd (harvest ?w2 pos nowIso)"
  let ?st1 = "st\<lparr>durability := Some 2, lastInteractedAt := Some nowIso\<rparr>"
  let ?st2 = "?st1\<lparr>durability := Some 1, lastInteractedAt := Some nowIso\<rparr>"
  have ty': "tile_type (getTile w pos) = TREE \<or> tile_type (getTile w pos) = ROCK"
    using ty by simp
  have m3: "(1::int) < 3" by simp
  note a = harvest_continue_after [OF h st d m3 ty', of nowIso]
  have st1: "tile_state (getTile ?w1 pos) = Some ?st1" using a(3) by simp
  have d1: "durability ?st1 = Some 2" by simp
  have ty1: "tile_type (getTile ?w1 pos) = TREE \<or> tile_type (getTile ?w1 pos) = ROCK"
    using a(2) ty by simp
  have m2: "(1::int) < 2" by simp
  note b = harvest_continue_after [OF a(1) st1 d1 m2 ty1, of nowIso]
  have st2: "tile_state (getTile ?w2 pos) = Some ?st2" using b(3) by simp
  have d2: "durability ?st2 = Some 1" by simp
  have m1: "(1::int) \<le> 1" by simp
  note c = harvest_complete_after [OF b(1) st2 d2 m1, of nowIso]
  have ty2: "tile_type (getTile ?w2 pos) = TREE" using b(2) a(2) ty by simp
  have n3: "(3::nat) = Suc (Suc (Suc 0))" by simp
  have n2: "(2::nat) = Suc (Suc 0)" by simp
  show "fst (harvestTimes 3 w pos nowIso) =
           [\<lparr>success = True, complete = False, drops = None\<rparr>,
            \<lparr>success = True, complete = False, drops = None\<rparr>,
            \<lparr>success = True, complete = True, drops = Some [''wood'', ''wood'', ''wood'']\<rparr>]"
    unfolding n3 harvestTimes_Suc [of "Suc (Suc 0)"] harvestTimes_Suc [of "Suc 0"] harvestTimes_1
    using a(5) b(5) c(2) ty2 by (simp add: getDrops_def)
  show "tile_type (getTile (snd (harvestTimes 1 w pos nowIso)) pos) = TREE"
    unfolding One_nat_def harvestTimes_1
    using a(2) ty by simp
  show "tile_type (getTile (snd (harvestTimes 2 w pos nowIso)) pos) = TREE"
    unfolding n2 harvestTimes_Suc [of "Suc 0"] harvestTimes_1
    using ty2 by simp
  show "getTile (snd (harvestTimes 3 w pos nowIso)) pos =
           (tileOfType GRASS)\<lparr>tile_version := Some (getTileVersion w pos + 3)\<rparr>"
    unfolding n3 harvestTimes_Suc [of "Suc (Suc 0)"] harvestTimes_Suc [of "Suc 0"] harvestTimes_1
    using c(1) b(4) a(4) by simp
qed
lemma genRow_length: "length (fst (genRow wd ht j xs rnd k)) = length xs"
  by (induction xs arbitrary: k) (simp_all add: split_def Let_def)

lemma genRows_length: "length (fst (genRows wd ht ys rnd k)) = length ys"
  by (induction ys arbitrary: k) (simp_all add: split_def Let_def)

lemma newWorldManager_rowsPresent: "rowsPresent (newWorldManager wd ht rnd)"
  by (simp add: rowsPresent_def newWorldManager_def generateDefaultWorld_def genRows_length)

lemma setTile_rowsPresent:
  assumes "rowsPresent w"
  shows "rowsPresent (snd (setTile w p tile ev))"
proof (cases "fst (setTile w p tile ev)")
  case False
  then have "snd (setTile w p tile ev) = w"
    by (auto simp add: setTile_def Let_def split: option.splits if_splits)
  then show ?thesis using assms by simp
next
  case True
  then have "snd (setTile w p tile ev) =
      markTileDirty p
        (w\<lparr>worldMap := (worldMap w)\<lparr>tiles := (tiles (worldMap w))
           [nat (pos_y p) := js_set (the (rowAt w (pos_y p))) (pos_x p)
              (tile\<lparr>tile_version := Some (versionOrZero (js_get (the (rowAt w (pos_y p))) (pos_x p)) + 1)\<rparr>)]\<rparr>\<rparr>)"
    by (auto simp add: setTile_def Let_def split: option.splits if_splits)
  then show ?thesis using assms by (simp add: rowsPresent_def markTileDirty_def)
qed

text \<open>
  C1. On a grid that has its rows, for every in-bounds coordinate: a \<^verbatim>\<open>setTile\<close> whose
  \<^verbatim>\<open>expectedVersion\<close> equals the stored version returns true, stores the tile with
  version \<open>expectedVersion + 1\<close> and adds the coordinate to the dirty set, which keeps
  every coordinate it held; a
  \<^verbatim>\<open>setTile\<close> whose \<^verbatim>\<open>expectedVersion\<close> differs returns false and changes nothing.
  From version 3, a write expecting 3 succeeds and the tile is at version 4; a second
  write expecting 3 fails and the tile stays at version 4.
\<close>

theorem setTile_expected_version:
  assumes "rowsPresent w" "isInBounds w p"
  shows "(ev = getTileVersion w p \<longrightarrow>
            fst (setTile w p tile (Some ev)) \<and>
            getTile (snd (setTile w p tile (Some ev))) p = tile\<lparr>tile_version := Some (ev + 1)\<rparr> \<and>
            getTileVersion (snd (setTile w p tile (Some ev))) p = ev + 1 \<and>
            dirtyTiles (snd (setTile w p tile (Some ev))) =
              insert (pos_x p, pos_y p) (dirtyTiles w)) \<and>
         (ev \<noteq> getTileVersion w p \<longrightarrow> setTile w p tile (Some ev) = (False, w)) \<and>
         (getTileVersion w p = 3 \<longrightarrow>
            fst (setTile w p tile (Some 3)) \<and>
            getTileVersion (snd (setTile w p tile (Some 3))) p = 4 \<and>
            setTile (snd (setTile w p tile (Some 3))) p tile2 (Some 3) =
              (False, snd (setTile w p tile (Some 3))))"
proof -
  note rp = rowsPresent_rowPresent [OF assms]
  have acc: "setTile w p tile (Some (getTileVersion w p)) = (True, written w p tile)"
    by (rule setTile_accept [OF assms(2) rp]) simp
  have ib': "isInBounds (written w p tile) p" using assms(2) by (simp add: written_bounds)
  have rp': "rowPresent (written w p tile) p" using rp by (simp add: written_rowPresent)
  have v': "getTileVersion (written w p tile) p = getTileVersion w p + 1"
    by (rule written_version [OF assms(2) rp])
  have one: "ev = getTileVersion w p \<longrightarrow>
            fst (setTile w p tile (Some ev)) \<and>
            getTile (snd (setTile w p tile (Some ev))) p = tile\<lparr>tile_version := Some (ev + 1)\<rparr> \<and>
            getTileVersion (snd (setTile w p tile (Some ev))) p = ev + 1 \<and>
            dirtyTiles (snd (setTile w p tile (Some ev))) =
              insert (pos_x p, pos_y p) (dirtyTiles w)"
    using acc v' written_getTile [OF assms(2) rp, of tile]
    by (simp add: written_dirty)
  have two: "ev \<noteq> getTileVersion w p \<longrightarrow> setTile w p tile (Some ev) = (False, w)"
    using setTile_reject [OF assms(2) rp] by blast
  have three: "getTileVersion w p = 3 \<longrightarrow>
            fst (setTile w p tile (Some 3)) \<and>
            getTileVersion (snd (setTile w p tile (Some 3))) p = 4 \<and>
            setTile (snd (setTile w p tile (Some 3))) p tile2 (Some 3) =
              (False, snd (setTile w p tile (Some 3)))"
  proof
    assume v3: "getTileVersion w p = 3"
    have ne: "3 \<noteq> getTileVersion (written w p tile) p" using v' v3 by simp
    have rej: "setTile (written w p tile) p tile2 (Some 3) = (False, written w p tile)"
      by (rule setTile_reject [OF ib' rp' ne])
    show "fst (setTile w p tile (Some 3)) \<and>
            getTileVersion (snd (setTile w p tile (Some 3))) p = 4 \<and>
            setTile (snd (setTile w p tile (Some 3))) p tile2 (Some 3) =
              (False, snd (setTile w p tile (Some 3)))"
      using acc v3 v' rej by simp
  qed
  show ?thesis using one two three by blast
qed

theorem setTile_expected_version_witness:
  "rowsPresent exampleWorld \<and> isInBounds exampleWorld (mkPos 1 1) \<and>
   getTileVersion exampleWorld (mkPos 1 1) = 3 \<and>
   fst (setTile exampleWorld (mkPos 1 1) (tileOfType DIRT) (Some 3)) \<and>
   getTileVersion (snd (setTile exampleWorld (mkPos 1 1) (tileOfType DIRT) (Some 3))) (mkPos 1 1) = 4 \<and>
   dirtyTiles (snd (setTile exampleWorld (mkPos 1 1) (tileOfType DIRT) (Some 3))) = {(1, 1)} \<and>
   setTile (snd (setTile exampleWorld (mkPos 1 1) (tileOfType DIRT) (Some 3))) (mkPos 1 1)
     (tileOfType SAND) (Some 3) =
     (False, snd (setTile exampleWorld (mkPos 1 1) (tileOfType DIRT) (Some 3))) \<and>
   (7::int) \<noteq> getTileVersion exampleWorld (mkPos 1 1) \<and>
   setTile exampleWorld (mkPos 1 1) (tileOfType DIRT) (Some 7) = (False, exampleWorld)"
proof -
  have h1: "rowsPresent exampleWorld" by (simp add: rowsPresent_def exampleWorld_def)
  have h2: "isInBounds exampleWorld (mkPos 1 1)"
    by (simp add: isInBounds_def exampleWorld_def mkPos_def)
  have v: "getTileVersion exampleWorld (mkPos 1 1) = 3"
    by (simp add: getTileVersion_def getTile_def isInBounds_def rowAt_def js_get_def
        exampleWorld_def mkPos_def tileOfType_def)
  have x: "pos_x (mkPos 1 1) = 1" "pos_y (mkPos 1 1) = 1" by (simp_all add: mkPos_def)
  show ?thesis
    using setTile_expected_version [OF h1 h2, of 3 "tileOfType DIRT" "tileOfType SAND"]
      setTile_expected_version [OF h1 h2, of 7 "tileOfType DIRT" "tileOfType SAND"] h1 h2 v x
    by (simp add: exampleWorld_def)
qed

text \<open>
  C10. On a grid that has its rows, for every in-bounds coordinate and every tile: a
  \<^verbatim>\<open>setTile\<close> without \<^verbatim>\<open>expectedVersion\<close> is accepted whatever the stored version is,
  stores the tile with the stored version plus 1 and puts the coordinate into the dirty
  set. So after any accepted write of another caller, a write that still expects the
  version read before is rejected, while the same write without an expected version is
  accepted and replaces the other caller's tile.
\<close>

theorem setTile_without_version:
  assumes "rowsPresent w" "isInBounds w p"
  shows "fst (setTile w p tile None) \<and>
         getTile (snd (setTile w p tile None)) p =
           tile\<lparr>tile_version := Some (getTileVersion w p + 1)\<rparr> \<and>
         getTileVersion (snd (setTile w p tile None)) p = getTileVersion w p + 1 \<and>
         (pos_x p, pos_y p) \<in> dirtyTiles (snd (setTile w p tile None)) \<and>
         (let w1 = snd (setTile w p other (Some (getTileVersion w p))) in
            getTile w1 p = other\<lparr>tile_version := Some (getTileVersion w p + 1)\<rparr> \<and>
            setTile w1 p tile (Some (getTileVersion w p)) = (False, w1) \<and>
            fst (setTile w1 p tile None) \<and>
            getTile (snd (setTile w1 p tile None)) p =
              tile\<lparr>tile_version := Some (getTileVersion w p + 2)\<rparr>)"
proof -
  note rp = rowsPresent_rowPresent [OF assms]
  have acc: "setTile w p tile None = (True, written w p tile)"
    by (rule setTile_accept [OF assms(2) rp]) simp
  have first: "fst (setTile w p tile None) \<and>
         getTile (snd (setTile w p tile None)) p =
           tile\<lparr>tile_version := Some (getTileVersion w p + 1)\<rparr> \<and>
         getTileVersion (snd (setTile w p tile None)) p = getTileVersion w p + 1 \<and>
         (pos_x p, pos_y p) \<in> dirtyTiles (snd (setTile w p tile None))"
    using acc written_getTile [OF assms(2) rp, of tile] written_version [OF assms(2) rp, of tile]
    by (simp add: written_dirty)
  let ?w1 = "written w p other"
  have o: "setTile w p other (Some (getTileVersion w p)) = (True, ?w1)"
    by (rule setTile_accept [OF assms(2) rp]) simp
  have ib1: "isInBounds ?w1 p" using assms(2) by (simp add: written_bounds)
  have rp1: "rowPresent ?w1 p" using rp by (simp add: written_rowPresent)
  have v1: "getTileVersion ?w1 p = getTileVersion w p + 1"
    by (rule written_version [OF assms(2) rp])
  have g1: "getTile ?w1 p = other\<lparr>tile_version := Some (getTileVersion w p + 1)\<rparr>"
    by (rule written_getTile [OF assms(2) rp])
  have stale: "setTile ?w1 p tile (Some (getTileVersion w p)) = (False, ?w1)"
    by (rule setTile_reject [OF ib1 rp1]) (use v1 in simp)
  have blind: "setTile ?w1 p tile None = (True, written ?w1 p tile)"
    by (rule setTile_accept [OF ib1 rp1]) simp
  have g2: "getTile (written ?w1 p tile) p = tile\<lparr>tile_version := Some (getTileVersion w p + 2)\<rparr>"
    using written_getTile [OF ib1 rp1, of tile] v1 by simp
  have second: "let w1 = snd (setTile w p other (Some (getTileVersion w p))) in
            getTile w1 p = other\<lparr>tile_version := Some (getTileVersion w p + 1)\<rparr> \<and>
            setTile w1 p tile (Some (getTileVersion w p)) = (False, w1) \<and>
            fst (setTile w1 p tile None) \<and>
            getTile (snd (setTile w1 p tile None)) p =
              tile\<lparr>tile_version := Some (getTileVersion w p + 2)\<rparr>"
    unfolding Let_def o snd_conv using g1 stale blind g2 by simp
  show ?thesis using first second by blast
qed

theorem setTile_without_version_witness:
  "rowsPresent exampleWorld \<and> isInBounds exampleWorld (mkPos 1 1) \<and>
   getTileVersion exampleWorld (mkPos 1 1) = 3 \<and>
   fst (setTile exampleWorld (mkPos 1 1) (tileOfType DIRT) None) \<and>
   getTileVersion (snd (setTile exampleWorld (mkPos 1 1) (tileOfType DIRT) None)) (mkPos 1 1) = 4 \<and>
   (1, 1) \<in> dirtyTiles (snd (setTile exampleWorld (mkPos 1 1) (tileOfType DIRT) None))"
proof -
  have h1: "rowsPresent exampleWorld" by (simp add: rowsPresent_def exampleWorld_def)
  have h2: "isInBounds exampleWorld (mkPos 1 1)"
    by (simp add: isInBounds_def exampleWorld_def mkPos_def)
  have v: "getTileVersion exampleWorld (mkPos 1 1) = 3"
    by (simp add: getTileVersion_def getTile_def isInBounds_def rowAt_def js_get_def
        exampleWorld_def mkPos_def tileOfType_def)
  have x: "pos_x (mkPos 1 1) = 1" "pos_y (mkPos 1 1) = 1" by (simp_all add: mkPos_def)
  show ?thesis
    using setTile_without_version [OF h1 h2, of "tileOfType DIRT" "tileOfType SAND"] h1 h2 v x
    by (simp add: Let_def)
qed

text \<open>
  C6. For every harvestable tile that carries a durability \<open>d\<close>: the \<^verbatim>\<open>harvest\<close> call
  succeeds and raises the stored version by 1 in a write that expects the version read;
  while \<open>d > 1\<close> the call is not complete, returns no drops, keeps the tile type and
  stores durability \<open>d - 1\<close>; when \<open>d \<le> 1\<close> the call is complete, returns the drops of
  the tile type, and its one write, expecting the version read, makes the tile plain
  GRASS. A TREE with durability 3 is still a
  TREE after one and after two harvests; the three calls all succeed, only the third is
  complete, it returns three units of wood, and the tile is then GRASS.
\<close>

theorem harvest_durability_countdown:
  assumes "isHarvestable w p" "tile_state (getTile w p) = Some st" "durability st = Some d"
  shows "success (fst (harvest w p nowIso)) \<and>
         getTileVersion (snd (harvest w p nowIso)) p = getTileVersion w p + 1 \<and>
         (pos_x p, pos_y p) \<in> dirtyTiles (snd (harvest w p nowIso)) \<and>
         (1 < d \<longrightarrow>
            \<not> complete (fst (harvest w p nowIso)) \<and>
            drops (fst (harvest w p nowIso)) = None \<and>
            tile_type (getTile (snd (harvest w p nowIso)) p) = tile_type (getTile w p) \<and>
            tile_state (getTile (snd (harvest w p nowIso)) p) =
              Some (st\<lparr>durability := Some (d - 1), lastInteractedAt := Some nowIso\<rparr>)) \<and>
         (d \<le> 1 \<longrightarrow>
            complete (fst (harvest w p nowIso)) \<and>
            drops (fst (harvest w p nowIso)) = Some (getDrops (tile_type (getTile w p))) \<and>
            snd (harvest w p nowIso) =
              snd (setTile w p (tileOfType GRASS) (Some (getTileVersion w p))) \<and>
            getTile (snd (harvest w p nowIso)) p =
              (tileOfType GRASS)\<lparr>tile_version := Some (getTileVersion w p + 1)\<rparr>) \<and>
         (tile_type (getTile w p) = TREE \<and> d = 3 \<longrightarrow>
            fst (harvestTimes 3 w p nowIso) =
              [\<lparr>success = True, complete = False, drops = None\<rparr>,
               \<lparr>success = True, complete = False, drops = None\<rparr>,
               \<lparr>success = True, complete = True, drops = Some [''wood'', ''wood'', ''wood'']\<rparr>] \<and>
            tile_type (getTile (snd (harvestTimes 1 w p nowIso)) p) = TREE \<and>
            tile_type (getTile (snd (harvestTimes 2 w p nowIso)) p) = TREE \<and>
            getTile (snd (harvestTimes 3 w p nowIso)) p =
              (tileOfType GRASS)\<lparr>tile_version := Some (getTileVersion w p + 3)\<rparr>)"
proof -
  note pr = harvestable_present [OF assms(1)]
  have more: "1 < d \<longrightarrow>
            success (fst (harvest w p nowIso)) \<and>
            getTileVersion (snd (harvest w p nowIso)) p = getTileVersion w p + 1 \<and>
            (pos_x p, pos_y p) \<in> dirtyTiles (snd (harvest w p nowIso)) \<and>
            \<not> complete (fst (harvest w p nowIso)) \<and>
            drops (fst (harvest w p nowIso)) = None \<and>
            tile_type (getTile (snd (harvest w p nowIso)) p) = tile_type (getTile w p) \<and>
            tile_state (getTile (snd (harvest w p nowIso)) p) =
              Some (st\<lparr>durability := Some (d - 1), lastInteractedAt := Some nowIso\<rparr>)"
  proof
    assume m: "1 < d"
    note hc = harvest_continue [OF assms m, of nowIso]
    show "success (fst (harvest w p nowIso)) \<and>
            getTileVersion (snd (harvest w p nowIso)) p = getTileVersion w p + 1 \<and>
            (pos_x p, pos_y p) \<in> dirtyTiles (snd (harvest w p nowIso)) \<and>
            \<not> complete (fst (harvest w p nowIso)) \<and>
            drops (fst (harvest w p nowIso)) = None \<and>
            tile_type (getTile (snd (harvest w p nowIso)) p) = tile_type (getTile w p) \<and>
            tile_state (getTile (snd (harvest w p nowIso)) p) =
              Some (st\<lparr>durability := Some (d - 1), lastInteractedAt := Some nowIso\<rparr>)"
      unfolding hc fst_conv snd_conv
      by (simp add: written_version [OF pr] written_getTile [OF pr] written_dirty)
  qed
  have fin: "d \<le> 1 \<longrightarrow>
            success (fst (harvest w p nowIso)) \<and>
            getTileVersion (snd (harvest w p nowIso)) p = getTileVersion w p + 1 \<and>
            (pos_x p, pos_y p) \<in> dirtyTiles (snd (harvest w p nowIso)) \<and>
            complete (fst (harvest w p nowIso)) \<and>
            drops (fst (harvest w p nowIso)) = Some (getDrops (tile_type (getTile w p))) \<and>
            snd (harvest w p nowIso) =
              snd (setTile w p (tileOfType GRASS) (Some (getTileVersion w p))) \<and>
            getTile (snd (harvest w p nowIso)) p =
              (tileOfType GRASS)\<lparr>tile_version := Some (getTileVersion w p + 1)\<rparr>"
  proof
    assume l: "d \<le> 1"
    note hc = harvest_complete [OF assms l, of nowIso]
    have wr: "setTile w p (tileOfType GRASS) (Some (getTileVersion w p)) =
        (True, written w p (tileOfType GRASS))"
      by (rule setTile_accept [OF pr]) simp
    show "success (fst (harvest w p nowIso)) \<and>
            getTileVersion (snd (harvest w p nowIso)) p = getTileVersion w p + 1 \<and>
            (pos_x p, pos_y p) \<in> dirtyTiles (snd (harvest w p nowIso)) \<and>
            complete (fst (harvest w p nowIso)) \<and>
            drops (fst (harvest w p nowIso)) = Some (getDrops (tile_type (getTile w p))) \<and>
            snd (harvest w p nowIso) =
              snd (setTile w p (tileOfType GRASS) (Some (getTileVersion w p))) \<and>
            getTile (snd (harvest w p nowIso)) p =
              (tileOfType GRASS)\<lparr>tile_version := Some (getTileVersion w p + 1)\<rparr>"
      unfolding hc wr fst_conv snd_conv
      by (simp add: written_version [OF pr] written_getTile [OF pr] written_dirty)
  qed
  have tree: "tile_type (getTile w p) = TREE \<and> d = 3 \<longrightarrow>
            fst (harvestTimes 3 w p nowIso) =
              [\<lparr>success = True, complete = False, drops = None\<rparr>,
               \<lparr>success = True, complete = False, drops = None\<rparr>,
               \<lparr>success = True, complete = True, drops = Some [''wood'', ''wood'', ''wood'']\<rparr>] \<and>
            tile_type (getTile (snd (harvestTimes 1 w p nowIso)) p) = TREE \<and>
            tile_type (getTile (snd (harvestTimes 2 w p nowIso)) p) = TREE \<and>
            getTile (snd (harvestTimes 3 w p nowIso)) p =
              (tileOfType GRASS)\<lparr>tile_version := Some (getTileVersion w p + 3)\<rparr>"
  proof
    assume a: "tile_type (getTile w p) = TREE \<and> d = 3"
    then have d3: "durability st = Some 3" and ty: "tile_type (getTile w p) = TREE"
      using assms(3) by simp_all
    show "fst (harvestTimes 3 w p nowIso) =
              [\<lparr>success = True, complete = False, drops = None\<rparr>,
               \<lparr>success = True, complete = False, drops = None\<rparr>,
               \<lparr>success = True, complete = True, drops = Some [''wood'', ''wood'', ''wood'']\<rparr>] \<and>
            tile_type (getTile (snd (harvestTimes 1 w p nowIso)) p) = TREE \<and>
            tile_type (getTile (snd (harvestTimes 2 w p nowIso)) p) = TREE \<and>
            getTile (snd (harvestTimes 3 w p nowIso)) p =
              (tileOfType GRASS)\<lparr>tile_version := Some (getTileVersion w p + 3)\<rparr>"
      using tree_three_harvests [OF assms(1,2) d3 ty, of nowIso] by blast
  qed
  have cases: "1 < d \<or> d \<le> 1" by linarith
  show ?thesis using more fin tree cases by blast
qed

theorem harvest_durability_countdown_witness:
  "isHarvestable exampleWorld (mkPos 0 0) \<and>
   tile_state (getTile exampleWorld (mkPos 0 0)) = tile_state (resourceTile TREE 3) \<and>
   tile_type (getTile exampleWorld (mkPos 0 0)) = TREE \<and>
   map success (fst (harvestTimes 3 exampleWorld (mkPos 0 0) ''t'')) = [True, True, True] \<and>
   map complete (fst (harvestTimes 3 exampleWorld (mkPos 0 0) ''t'')) = [False, False, True] \<and>
   map drops (fst (harvestTimes 3 exampleWorld (mkPos 0 0) ''t'')) =
     [None, None, Some [''wood'', ''wood'', ''wood'']] \<and>
   tile_type (getTile (snd (harvestTimes 2 exampleWorld (mkPos 0 0) ''t'')) (mkPos 0 0)) = TREE \<and>
   tile_type (getTile (snd (harvestTimes 3 exampleWorld (mkPos 0 0) ''t'')) (mkPos 0 0)) = GRASS \<and>
   \<not> complete (fst (harvest exampleWorld (mkPos 0 0) ''t'')) \<and>
   isHarvestable exampleWorld (mkPos 1 0) \<and>
   tile_state (getTile exampleWorld (mkPos 1 0)) = tile_state (resourceTile ROCK 1) \<and>
   complete (fst (harvest exampleWorld (mkPos 1 0) ''t'')) \<and>
   drops (fst (harvest exampleWorld (mkPos 1 0) ''t'')) =
     Some [''stone'', ''stone'', ''stone'', ''stone'', ''stone''] \<and>
   tile_type (getTile (snd (harvest exampleWorld (mkPos 1 0) ''t'')) (mkPos 1 0)) = GRASS"
proof -
  have g: "getTile exampleWorld (mkPos 0 0) = resourceTile TREE 3"
    by (simp add: getTile_def isInBounds_def rowAt_def js_get_def exampleWorld_def mkPos_def)
  have h: "isHarvestable exampleWorld (mkPos 0 0)"
    unfolding isHarvestable_def g
    by (simp add: resourceTile_def getTileConfig_def initTileConfigs_def mkConfig_def)
  have st: "tile_state (getTile exampleWorld (mkPos 0 0)) =
      Some \<lparr>tilled = None, crop = None, growthStage = None, watered = None,
            durability = Some 3, lastInteractedAt = None, otherFields = []\<rparr>"
    unfolding g by (simp add: resourceTile_def)
  have ty: "tile_type (getTile exampleWorld (mkPos 0 0)) = TREE"
    unfolding g by (simp add: resourceTile_def)
  have g': "getTile exampleWorld (mkPos 1 0) = resourceTile ROCK 1"
    by (simp add: getTile_def isInBounds_def rowAt_def js_get_def exampleWorld_def mkPos_def)
  have h': "isHarvestable exampleWorld (mkPos 1 0)"
    unfolding isHarvestable_def g'
    by (simp add: resourceTile_def getTileConfig_def initTileConfigs_def mkConfig_def)
  have st': "tile_state (getTile exampleWorld (mkPos 1 0)) =
      Some \<lparr>tilled = None, crop = None, growthStage = None, watered = None,
            durability = Some 1, lastInteractedAt = None, otherFields = []\<rparr>"
    unfolding g' by (simp add: resourceTile_def)
  have ty': "tile_type (getTile exampleWorld (mkPos 1 0)) = ROCK"
    unfolding g' by (simp add: resourceTile_def)
  have tree: "\<not> complete (fst (harvest exampleWorld (mkPos 0 0) ''t'')) \<and>
      fst (harvestTimes 3 exampleWorld (mkPos 0 0) ''t'') =
        [\<lparr>success = True, complete = False, drops = None\<rparr>,
         \<lparr>success = True, complete = False, drops = None\<rparr>,
         \<lparr>success = True, complete = True, drops = Some [''wood'', ''wood'', ''wood'']\<rparr>] \<and>
      tile_type (getTile (snd (harvestTimes 2 exampleWorld (mkPos 0 0) ''t'')) (mkPos 0 0)) = TREE \<and>
      getTile (snd (harvestTimes 3 exampleWorld (mkPos 0 0) ''t'')) (mkPos 0 0) =
        (tileOfType GRASS)\<lparr>tile_version := Some (getTileVersion exampleWorld (mkPos 0 0) + 3)\<rparr>"
    using harvest_durability_countdown [OF h st, of 3 "''t''"] ty by simp
  have rock: "complete (fst (harvest exampleWorld (mkPos 1 0) ''t'')) \<and>
      drops (fst (harvest exampleWorld (mkPos 1 0) ''t'')) = Some (getDrops ROCK) \<and>
      getTile (snd (harvest exampleWorld (mkPos 1 0) ''t'')) (mkPos 1 0) =
        (tileOfType GRASS)\<lparr>tile_version := Some (getTileVersion exampleWorld (mkPos 1 0) + 1)\<rparr>"
  proof -
    have le: "(1::int) \<le> 1" by simp
    show ?thesis
      using harvest_durability_countdown [OF h' st', of 1 "''t''"] ty' le by clarsimp
  qed
  show ?thesis
    using tree rock h st ty h' st' ty'
    by (simp add: resourceTile_def tileOfType_def getDrops_def)
qed

section \<open>Properties of the weather transitions\<close>

lemma cumulative_from_0: "cumulative tbl i = cumulativeFrom 0 tbl i"
  by (simp add: cumulative_def cumulativeFrom_def)

lemma cumulativeFrom_0: "cumulativeFrom acc ((n, p) # rest) 0 = acc + p"
  by (simp add: cumulativeFrom_def)

lemma cumulativeFrom_Suc:
  "cumulativeFrom acc ((n, p) # rest) (Suc i) = cumulativeFrom (acc + p) rest i"
  by (simp add: cumulativeFrom_def)

lemma weatherLoop_first:
  "i < length tbl \<Longrightarrow> roll \<le> cumulativeFrom acc tbl i \<Longrightarrow>
   (\<forall>j<i. \<not> roll \<le> cumulativeFrom acc tbl j) \<Longrightarrow>
   weatherLoop tbl roll acc = Some (fst (tbl ! i))"
proof (induction tbl arbitrary: acc i)
  case Nil
  then show ?case by simp
next
  case (Cons e rest)
  obtain n p where e: "e = (n, p)" by (cases e)
  show ?case
  proof (cases i)
    case 0
    with Cons.prems e show ?thesis by (simp add: cumulativeFrom_0)
  next
    case (Suc k)
    have no0: "\<not> roll \<le> acc + p"
      using Cons.prems(3) Suc e cumulativeFrom_0 [of acc n p rest] by auto
    have k: "k < length rest" using Cons.prems(1) Suc by simp
    have hit: "roll \<le> cumulativeFrom (acc + p) rest k"
      using Cons.prems(2) Suc e by (simp add: cumulativeFrom_Suc)
    have miss: "\<forall>j<k. \<not> roll \<le> cumulativeFrom (acc + p) rest j"
    proof (intro allI impI)
      fix j assume "j < k"
      then have "Suc j < i" using Suc by simp
      then have "\<not> roll \<le> cumulativeFrom acc (e # rest) (Suc j)"
        using Cons.prems(3) by blast
      then show "\<not> roll \<le> cumulativeFrom (acc + p) rest j"
        using e by (simp add: cumulativeFrom_Suc)
    qed
    have "weatherLoop rest roll (acc + p) = Some (fst (rest ! k))"
      by (rule Cons.IH [OF k hit miss])
    then show ?thesis using no0 e Suc by (simp add: Let_def)
  qed
qed

lemma weatherLoop_none:
  "(\<forall>i<length tbl. \<not> roll \<le> cumulativeFrom acc tbl i) \<Longrightarrow> weatherLoop tbl roll acc = None"
proof (induction tbl arbitrary: acc)
  case Nil
  then show ?case by simp
next
  case (Cons e rest)
  obtain n p where e: "e = (n, p)" by (cases e)
  have no0: "\<not> roll \<le> acc + p"
    using Cons.prems e cumulativeFrom_0 [of acc n p rest] by auto
  have "\<forall>i<length rest. \<not> roll \<le> cumulativeFrom (acc + p) rest i"
  proof (intro allI impI)
    fix i assume "i < length rest"
    then have "Suc i < length (e # rest)" by simp
    then have "\<not> roll \<le> cumulativeFrom acc (e # rest) (Suc i)"
      using Cons.prems by blast
    then show "\<not> roll \<le> cumulativeFrom (acc + p) rest i"
      using e by (simp add: cumulativeFrom_Suc)
  qed
  then have "weatherLoop rest roll (acc + p) = None" by (rule Cons.IH)
  then show ?case using no0 e by (simp add: Let_def)
qed

lemma weatherLoop_member:
  "weatherLoop tbl roll acc = Some n \<Longrightarrow> n \<in> fst ` set tbl"
proof (induction tbl arbitrary: acc)
  case Nil
  then show ?case by simp
next
  case (Cons e rest)
  obtain m p where e: "e = (m, p)" by (cases e)
  show ?case
  proof (cases "roll \<le> acc + p")
    case True
    with Cons.prems e show ?thesis by (simp add: Let_def)
  next
    case False
    with Cons.prems e have "weatherLoop rest roll (acc + p) = Some n" by (simp add: Let_def)
    then have "n \<in> fst ` set rest" by (rule Cons.IH)
    then show ?thesis by simp
  qed
qed

lemma pickWeather_member:
  assumes "tbl \<noteq> []"
  shows "pickWeather tbl roll \<in> fst ` set tbl"
proof (cases "weatherLoop tbl roll 0")
  case None
  then show ?thesis using assms by (simp add: pickWeather_def)
next
  case (Some n)
  then show ?thesis using weatherLoop_member [OF Some] by (simp add: pickWeather_def)
qed

lemma pickWeather_first:
  assumes "i < length tbl" "roll \<le> cumulative tbl i" "\<forall>j<i. \<not> roll \<le> cumulative tbl j"
  shows "pickWeather tbl roll = fst (tbl ! i)"
  using weatherLoop_first [of i tbl roll 0] assms
  by (simp add: pickWeather_def cumulative_from_0)

lemma pickWeather_fallback:
  assumes "tbl \<noteq> []" "\<forall>i<length tbl. \<not> roll \<le> cumulative tbl i"
  shows "pickWeather tbl roll = fst (last tbl)"
  using weatherLoop_none [of tbl roll 0] assms
  by (simp add: pickWeather_def cumulative_from_0)

lemma table_nonempty: "WEATHER_TRANSITIONS w \<noteq> []"
  by (cases w) (simp_all add: WEATHER_TRANSITIONS_def)

lemma table_reaches_one:
  "cumulative (WEATHER_TRANSITIONS w) (length (WEATHER_TRANSITIONS w) - 1) = 1"
  by (cases w) (simp_all add: WEATHER_TRANSITIONS_def cumulative_def)
lemma table_last_index:
  "length (WEATHER_TRANSITIONS w) - 1 < length (WEATHER_TRANSITIONS w)"
  using table_nonempty [of w] by (cases "WEATHER_TRANSITIONS w") simp_all

text \<open>
  C8. \<^verbatim>\<open>getNextWeather\<close> is a total function of the current weather and the draw: it
  returns one of the weather values listed in the current weather's transition list, namely
  the one of the first entry whose cumulative probability is at least the draw, and the
  one of the last entry when no entry qualifies. The same holds of the selection on any
  non-empty list, so also on one whose probabilities add up to less than the draw. With
  the table of the source a draw of at most 1 always finds an entry.
\<close>

theorem getNextWeather_selection:
  "getNextWeather current roll = pickWeather (WEATHER_TRANSITIONS current) roll \<and>
   getNextWeather current roll \<in> fst ` set (WEATHER_TRANSITIONS current) \<and>
   (roll \<le> 1 \<longrightarrow>
      (\<exists>i<length (WEATHER_TRANSITIONS current). roll \<le> cumulative (WEATHER_TRANSITIONS current) i)) \<and>
   (\<forall>tbl. tbl \<noteq> [] \<longrightarrow>
      pickWeather tbl roll \<in> fst ` set tbl \<and>
      (\<forall>i<length tbl.
         roll \<le> cumulative tbl i \<and> (\<forall>j<i. \<not> roll \<le> cumulative tbl j) \<longrightarrow>
         pickWeather tbl roll = fst (tbl ! i)) \<and>
      ((\<forall>i<length tbl. \<not> roll \<le> cumulative tbl i) \<longrightarrow>
         pickWeather tbl roll = fst (last tbl)))"
proof -
  have a: "getNextWeather current roll = pickWeather (WEATHER_TRANSITIONS current) roll"
    by (simp add: getNextWeather_def)
  have b: "getNextWeather current roll \<in> fst ` set (WEATHER_TRANSITIONS current)"
    unfolding a by (rule pickWeather_member [OF table_nonempty])
  have c: "roll \<le> 1 \<longrightarrow>
      (\<exists>i<length (WEATHER_TRANSITIONS current). roll \<le> cumulative (WEATHER_TRANSITIONS current) i)"
    using table_last_index [of current] table_reaches_one [of current] by auto
  have d: "\<forall>tbl. tbl \<noteq> [] \<longrightarrow>
      pickWeather tbl roll \<in> fst ` set tbl \<and>
      (\<forall>i<length tbl.
         roll \<le> cumulative tbl i \<and> (\<forall>j<i. \<not> roll \<le> cumulative tbl j) \<longrightarrow>
         pickWeather tbl roll = fst (tbl ! i)) \<and>
      ((\<forall>i<length tbl. \<not> roll \<le> cumulative tbl i) \<longrightarrow>
         pickWeather tbl roll = fst (last tbl))"
    using pickWeather_member pickWeather_first pickWeather_fallback by blast
  show ?thesis using a b c d by blast
qed

theorem getNextWeather_selection_witness:
  "getNextWeather Clear (61 / 100) = Rain \<and>
   (61 / 100 :: rat) \<le> cumulative (WEATHER_TRANSITIONS Clear) 1 \<and>
   \<not> (61 / 100 :: rat) \<le> cumulative (WEATHER_TRANSITIONS Clear) 0 \<and>
   getNextWeather Clear 1 = Snow \<and>
   getNextWeather Clear 2 = Snow \<and>
   \<not> 2 \<le> cumulative (WEATHER_TRANSITIONS Clear) 4 \<and>
   pickWeather [(Rain, 1 / 3), (Fog, 1 / 3), (Storm, 33 / 100)] 1 = Storm \<and>
   \<not> 1 \<le> cumulative [(Rain, 1 / 3), (Fog, 1 / 3), (Storm, 33 / 100)] 2"
proof -
  have len: "length (WEATHER_TRANSITIONS Clear) = 5" by (simp add: WEATHER_TRANSITIONS_def)
  have lt1: "j < Suc 0 \<longleftrightarrow> j = 0" for j :: nat by auto
  have c0: "cumulative (WEATHER_TRANSITIONS Clear) 0 = 6 / 10"
    and c1: "cumulative (WEATHER_TRANSITIONS Clear) (Suc 0) = 8 / 10"
    and c2: "cumulative (WEATHER_TRANSITIONS Clear) 2 = 9 / 10"
    and c3: "cumulative (WEATHER_TRANSITIONS Clear) 3 = 95 / 100"
    and c4: "cumulative (WEATHER_TRANSITIONS Clear) 4 = 1"
    by (simp_all add: WEATHER_TRANSITIONS_def cumulative_def numeral_2_eq_2 numeral_3_eq_3
        eval_nat_numeral)
  have d0: "cumulative [(Rain, 1 / 3), (Fog, 1 / 3), (Storm, 33 / 100)] 0 = 1 / 3"
    and d1: "cumulative [(Rain, 1 / 3), (Fog, 1 / 3), (Storm, 33 / 100)] (Suc 0) = 2 / 3"
    and d2: "cumulative [(Rain, 1 / 3), (Fog, 1 / 3), (Storm, 33 / 100)] 2 = 299 / 300"
    by (simp_all add: cumulative_def numeral_2_eq_2)
  have miss: "\<forall>i<length (WEATHER_TRANSITIONS Clear). \<not> 2 \<le> cumulative (WEATHER_TRANSITIONS Clear) i"
  proof (intro allI impI)
    fix i :: nat
    assume "i < length (WEATHER_TRANSITIONS Clear)"
    then have "i = 0 \<or> i = 1 \<or> i = 2 \<or> i = 3 \<or> i = 4" unfolding len by auto
    then show "\<not> 2 \<le> cumulative (WEATHER_TRANSITIONS Clear) i"
    proof (elim disjE)
      assume "i = 0" then show ?thesis by (simp add: c0)
    next
      assume "i = 1" then show ?thesis by (simp add: c1)
    next
      assume "i = 2" then show ?thesis by (simp add: c2)
    next
      assume "i = 3" then show ?thesis by (simp add: c3)
    next
      assume "i = 4" then show ?thesis by (simp add: c4)
    qed
  qed
  have short: "\<forall>i<length [(Rain, 1 / 3 :: rat), (Fog, 1 / 3), (Storm, 33 / 100)].
      \<not> 1 \<le> cumulative [(Rain, 1 / 3), (Fog, 1 / 3), (Storm, 33 / 100)] i"
  proof (intro allI impI)
    fix i :: nat
    assume "i < length [(Rain, 1 / 3 :: rat), (Fog, 1 / 3), (Storm, 33 / 100)]"
    then have "i = 0 \<or> i = 1 \<or> i = 2" by auto
    then show "\<not> 1 \<le> cumulative [(Rain, 1 / 3), (Fog, 1 / 3), (Storm, 33 / 100)] i"
    proof (elim disjE)
      assume "i = 0" then show ?thesis by (simp add: d0)
    next
      assume "i = 1" then show ?thesis by (simp add: d1)
    next
      assume "i = 2" then show ?thesis by (simp add: d2)
    qed
  qed
  have t1: "WEATHER_TRANSITIONS Clear ! 1 = (Rain, 2 / 10)"
    and t4: "WEATHER_TRANSITIONS Clear ! 4 = (Snow, 5 / 100)"
    and tl: "last (WEATHER_TRANSITIONS Clear) = (Snow, 5 / 100)"
    by (simp_all add: WEATHER_TRANSITIONS_def)
  have ne: "WEATHER_TRANSITIONS Clear \<noteq> []" by (simp add: WEATHER_TRANSITIONS_def)
  have first: "(61 / 100 :: rat) \<le> cumulative (WEATHER_TRANSITIONS Clear) 1 \<and>
      (\<forall>j<1. \<not> (61 / 100 :: rat) \<le> cumulative (WEATHER_TRANSITIONS Clear) j)"
    using c0 c1 by (simp add: lt1)
  have sel: "pickWeather tbl roll = fst (tbl ! i)"
    if "tbl \<noteq> []" "i < length tbl"
      "roll \<le> cumulative tbl i \<and> (\<forall>j<i. \<not> roll \<le> cumulative tbl j)" for tbl roll i
    using getNextWeather_selection [of Clear roll] that by blast
  have fb: "pickWeather tbl roll = fst (last tbl)"
    if "tbl \<noteq> []" "\<forall>i<length tbl. \<not> roll \<le> cumulative tbl i" for tbl roll
    using getNextWeather_selection [of Clear roll] that by blast
  have i1: "1 < length (WEATHER_TRANSITIONS Clear)" by (simp add: len)
  have p1: "pickWeather (WEATHER_TRANSITIONS Clear) (61 / 100) = Rain"
    using sel [OF ne i1 first] t1 by simp
  have p2: "pickWeather (WEATHER_TRANSITIONS Clear) 2 = Snow"
    using fb [OF ne miss] tl by simp
  have ne3: "[(Rain, 1 / 3 :: rat), (Fog, 1 / 3), (Storm, 33 / 100)] \<noteq> []" by simp
  have p3: "pickWeather [(Rain, 1 / 3), (Fog, 1 / 3), (Storm, 33 / 100)] 1 = Storm"
    using fb [OF ne3 short] by simp
  have p4: "getNextWeather Clear 1 = Snow"
    by (simp add: getNextWeather_def pickWeather_def WEATHER_TRANSITIONS_def)
  show ?thesis
    using p1 p2 p3 p4 c0 c1 c4 d2 by (simp add: getNextWeather_def)
qed

section \<open>Properties of the agent action queue\<close>





lemma enqueue_locked:
  assumes "agentId a \<in> locks s" "queues s (agentId a) = Some q" "length q < 100"
  shows "enqueue a now s = (True, s\<lparr>queues := (queues s)(agentId a \<mapsto> insertByPriority q a)\<rparr>)"
  using assms by (simp add: enqueue_def processQueue_def Let_def)

lemma enqueue_full:
  assumes "queues s (agentId a) = Some q" "100 \<le> length q"
  shows "fst (enqueue a now s) = False" and "queues (snd (enqueue a now s)) = queues s"
  using assms by (auto simp add: enqueue_def Let_def)



















section \<open>Properties of the interactions\<close>

lemma call_waits:
  "interactionQueues s (posKey r) = Some p \<Longrightarrow>
   handleInteractionAsync r t s = s\<lparr>microtasks := microtasks s @ [AfterPrevious r]\<rparr>"
  by (simp add: handleInteractionAsync_def)

lemma call_runs:
  "interactionQueues s (posKey r) = None \<Longrightarrow>
   handleInteractionAsync r t s = startInteraction r t s"
  by (simp add: handleInteractionAsync_def)

lemma startInteraction_fields:
  "worldManager (startInteraction r t s) = snd (processInteraction (agentPositions s) (worldManager s) r t)"
  "handled (startInteraction r t s) =
     handled s @ [(r, worldManager s, fst (processInteraction (agentPositions s) (worldManager s) r t))]"
  "interactionQueues (startInteraction r t s) = (interactionQueues s)(posKey r \<mapsto> promisesMade s)"
  "microtasks (startInteraction r t s) = microtasks s @ [AfterCurrent r (promisesMade s)]"
  "promisesMade (startInteraction r t s) = Suc (promisesMade s)"
  "processingCount (startInteraction r t s) = processingCount s + 1"
  "agentPositions (startInteraction r t s) = agentPositions s"
  by (simp_all add: startInteraction_def split_def Let_def)

lemma two_requests:
  fixes t :: string and s :: InteractionManager and r1 r2 :: InteractionRequest
  assumes "microtasks s = []" "interactionQueues s (posKey r1) = None" "posKey r2 = posKey r1"
  defines "a \<equiv> agentPositions s" and "w0 \<equiv> worldManager s"
  defines "w1 \<equiv> snd (processInteraction a w0 r1 t)"
  defines "w2 \<equiv> snd (processInteraction a w1 r2 t)"
  defines "s' \<equiv> runMicrotasks 3 t (callAll [r1, r2] t s)"
  shows "handled (callAll [r1, r2] t s) = handled s @ [(r1, w0, fst (processInteraction a w0 r1 t))]"
    and "handled s' = handled s @ [(r1, w0, fst (processInteraction a w0 r1 t)),
                                   (r2, w1, fst (processInteraction a w1 r2 t))]"
    and "worldManager s' = w2" and "microtasks s' = []"
    and "interactionQueues s' = interactionQueues s"
    and "processingCount s' = processingCount s"
  using assms(1-3) unfolding a_def w0_def w1_def w2_def s'_def
  by (simp_all add: numeral_3_eq_3 handleInteractionAsync_def startInteraction_def runMicrotask_def
      finishInteraction_def split_def Let_def fun_upd_idem)

lemma three_requests:
  fixes t :: string and s :: InteractionManager and r1 r2 r3 :: InteractionRequest
  assumes "microtasks s = []" "interactionQueues s (posKey r1) = None" "posKey r2 = posKey r1"
     "posKey r3 = posKey r1"
  defines "a \<equiv> agentPositions s" and "w0 \<equiv> worldManager s"
  defines "w1 \<equiv> snd (processInteraction a w0 r1 t)"
  defines "w2 \<equiv> snd (processInteraction a w1 r2 t)"
  defines "w3 \<equiv> snd (processInteraction a w2 r3 t)"
  defines "s' \<equiv> runMicrotasks 5 t (callAll [r1, r2, r3] t s)"
  shows "handled (callAll [r1, r2, r3] t s) = handled s @ [(r1, w0, fst (processInteraction a w0 r1 t))]"
    and "handled s' = handled s @ [(r1, w0, fst (processInteraction a w0 r1 t)),
                                   (r2, w1, fst (processInteraction a w1 r2 t)),
                                   (r3, w2, fst (processInteraction a w2 r3 t))]"
    and "worldManager s' = w3" and "microtasks s' = []"
    and "interactionQueues s' = interactionQueues s"
    and "processingCount s' = processingCount s"
  using assms(1-4) unfolding a_def w0_def w1_def w2_def w3_def s'_def
  by (simp_all add: eval_nat_numeral handleInteractionAsync_def startInteraction_def runMicrotask_def
      finishInteraction_def split_def Let_def fun_upd_idem)

lemma other_position:
  fixes t :: string and s :: InteractionManager and r1 r2 :: InteractionRequest
  assumes "interactionQueues s (posKey r1) = None" "interactionQueues s (posKey r2) = None"
    "posKey r2 \<noteq> posKey r1"
  shows "handled (callAll [r1, r2] t s) =
        handled s @
        [(r1, worldManager s,
          fst (processInteraction (agentPositions s) (worldManager s) r1 t)),
         (r2, snd (processInteraction (agentPositions s) (worldManager s) r1 t),
          fst (processInteraction (agentPositions s)
                 (snd (processInteraction (agentPositions s) (worldManager s) r1 t)) r2 t))]"
    and "interactionQueues (callAll [r1, r2] t s) (posKey r1) = Some (promisesMade s)"
  using assms
  by (simp_all add: handleInteractionAsync_def startInteraction_def split_def Let_def)

lemma chained_snoc:
  "chained a t w (es @ [(r, found, res)]) w' \<longleftrightarrow>
     (\<exists>w1. chained a t w es w1 \<and> found = w1 \<and> res = fst (processInteraction a w1 r t) \<and>
           w' = snd (processInteraction a w1 r t))"
  by (induction es arbitrary: w) auto

lemma chained_start:
  "chained (agentPositions s) t w0 (handled s) (worldManager s) \<Longrightarrow>
   chained (agentPositions s) t w0 (handled (startInteraction r t s)) (worldManager (startInteraction r t s))"
  by (simp add: startInteraction_fields chained_snoc)

lemma entryOwned_start:
  "entryOwned s \<Longrightarrow> entryOwned (startInteraction r t s)"
  unfolding entryOwned_def by (simp add: startInteraction_fields) blast

lemma entryOwned_call:
  "entryOwned s \<Longrightarrow> entryOwned (handleInteractionAsync r t s)"
proof (cases "interactionQueues s (posKey r)")
  case None
  assume "entryOwned s"
  then show ?thesis using None by (simp add: call_runs entryOwned_start)
next
  case (Some p)
  assume "entryOwned s"
  then show ?thesis using Some unfolding entryOwned_def by (simp add: call_waits)
qed

lemma entryOwned_pop_previous:
  "entryOwned s \<Longrightarrow> microtasks s = AfterPrevious r # rest \<Longrightarrow> entryOwned (s\<lparr>microtasks := rest\<rparr>)"
  unfolding entryOwned_def by simp

lemma entryOwned_finish:
  assumes "entryOwned s" "microtasks s = AfterCurrent r p # rest"
  shows "entryOwned (finishInteraction r p (s\<lparr>microtasks := rest\<rparr>))"
  unfolding entryOwned_def
proof (intro allI impI)
  fix k q
  assume h: "interactionQueues (finishInteraction r p (s\<lparr>microtasks := rest\<rparr>)) k = Some q"
  have rest: "microtasks (finishInteraction r p (s\<lparr>microtasks := rest\<rparr>)) = rest"
    by (simp add: finishInteraction_def Let_def)
  have old: "interactionQueues s k = Some q" and ne: "\<not> (k = posKey r \<and> q = p)"
    using h by (auto simp: finishInteraction_def Let_def split: if_splits)
  from assms(1) old obtain r' where r': "AfterCurrent r' q \<in> set (microtasks s)" "posKey r' = k"
    unfolding entryOwned_def by blast
  from r' ne have "AfterCurrent r' q \<noteq> AfterCurrent r p" by auto
  with r'(1) assms(2) have "AfterCurrent r' q \<in> set rest" by auto
  with r'(2) rest
  show "\<exists>ra. AfterCurrent ra q \<in> set (microtasks (finishInteraction r p (s\<lparr>microtasks := rest\<rparr>))) \<and> posKey ra = k"
    by auto
qed

lemma entryOwned_microtask:
  assumes "entryOwned s" shows "entryOwned (runMicrotask t s)"
proof (cases "microtasks s")
  case Nil
  then show ?thesis using assms by (simp add: runMicrotask_def)
next
  case (Cons c rest)
  show ?thesis
  proof (cases c)
    case (AfterPrevious r)
    then show ?thesis using Cons assms
      by (simp add: runMicrotask_def entryOwned_start entryOwned_pop_previous)
  next
    case (AfterCurrent r p)
    then show ?thesis using Cons assms
      by (simp add: runMicrotask_def entryOwned_finish)
  qed
qed

lemma entryOwned_runEvents:
  "entryOwned s \<Longrightarrow> entryOwned (runEvents es t s)"
  by (induction es t s rule: runEvents.induct) (simp_all add: entryOwned_call entryOwned_microtask)

lemma entryOwned_quiet:
  "entryOwned s \<Longrightarrow> microtasks s = [] \<Longrightarrow> interactionQueues s k = None"
  unfolding entryOwned_def by (cases "interactionQueues s k"; cases k) auto

lemma agents_call: "agentPositions (handleInteractionAsync r t s) = agentPositions s"
  by (simp add: handleInteractionAsync_def startInteraction_fields split: option.splits)

lemma agents_microtask: "agentPositions (runMicrotask t s) = agentPositions s"
  by (simp add: runMicrotask_def startInteraction_fields finishInteraction_def Let_def
      split: list.splits Continuation.splits)

lemma agents_runEvents: "agentPositions (runEvents es t s) = agentPositions s"
  by (induction es t s rule: runEvents.induct) (simp_all add: agents_call agents_microtask)

lemma chained_call:
  "chained (agentPositions s) t w0 (handled s) (worldManager s) \<Longrightarrow>
   chained (agentPositions s) t w0 (handled (handleInteractionAsync r t s))
     (worldManager (handleInteractionAsync r t s))"
  by (cases "interactionQueues s (posKey r)") (simp_all add: call_runs call_waits chained_start)

lemma chained_microtask:
  assumes "chained (agentPositions s) t w0 (handled s) (worldManager s)"
  shows "chained (agentPositions s) t w0 (handled (runMicrotask t s)) (worldManager (runMicrotask t s))"
proof (cases "microtasks s")
  case Nil
  then show ?thesis using assms by (simp add: runMicrotask_def)
next
  case (Cons c rest)
  show ?thesis
  proof (cases c)
    case (AfterPrevious r)
    have "chained (agentPositions (s\<lparr>microtasks := rest\<rparr>)) t w0 (handled (s\<lparr>microtasks := rest\<rparr>))
            (worldManager (s\<lparr>microtasks := rest\<rparr>))"
      using assms by simp
    from chained_start [OF this, of r] show ?thesis using Cons AfterPrevious
      by (simp add: runMicrotask_def)
  next
    case (AfterCurrent r p)
    then show ?thesis using Cons assms
      by (simp add: runMicrotask_def finishInteraction_def Let_def)
  qed
qed

lemma chained_runEvents:
  "chained (agentPositions s) t w0 (handled s) (worldManager s) \<Longrightarrow>
   chained (agentPositions s) t w0 (handled (runEvents es t s)) (worldManager (runEvents es t s))"
proof (induction es t s rule: runEvents.induct)
  case (1 nowIso s)
  then show ?case by simp
next
  case (2 r es nowIso s)
  from chained_call [OF 2(2), of r] 2(1) show ?case by (simp add: agents_call)
next
  case (3 es nowIso s)
  from chained_microtask [OF 3(2)] 3(1) show ?case by (simp add: agents_microtask)
qed


lemmas interaction_defs =
  processInteraction_def to2D_def beyondReach_def handleTill_def handlePlant_def handleWater_def
  tillLand_def plantCrop_def waterTile_def isTillable_def stateOrEmpty_def emptyTileState_def
  failure_def changed_def setTile_def getTile_def getTileVersion_def isInBounds_def rowAt_def
  js_get_def js_set_def versionOrZero_def markTileDirty_def getTileConfig_def
  initTileConfigs_def mkConfig_def tileOfType_def mkPos_def exampleWorld_def examplePlayers_def
  exampleRequest_def Let_def split_def

lemma ex_floor: "\<lfloor>1/2 :: rat\<rfloor> = 0" "\<lfloor>6/5 :: rat\<rfloor> = 1"
  by (simp_all add: floor_eq_iff)

text \<open>
  Claim C2. Requests for the same coordinate are processed one after another, each waiting
  for the previous one to finish, so that two requests never change the same tile at the
  same time.

  A call for a coordinate that has an entry in the map of promises changes nothing and
  waits; a call for a coordinate without entry runs its handler at once and leaves its
  promise as the entry, so two calls for different coordinates both run their handlers
  at once, the second while the entry of the first is still there. Two, and three, calls for one coordinate made one after the other
  on a manager at rest: after the calls only the first handler has run; after three, and
  five, microtasks the handlers have run in the order of the calls, each on the world the
  handler before it left, the microtask queue is empty, the entry of the coordinate is
  removed and the count of interactions in progress is back where it was. For every
  sequence of calls and microtasks: every handler finds the world the handler before it
  left (no handler runs inside another), every entry of the map belongs to a call that
  has not reached its \<^verbatim>\<open>finally\<close> block yet, and once the microtask queue is empty the
  map is empty.
\<close>

theorem same_position_requests_in_turn:
  fixes s :: InteractionManager and t :: string and r r1 r2 r3 :: InteractionRequest
  shows
  "(interactionQueues s (posKey r) \<noteq> None \<longrightarrow>
      handleInteractionAsync r t s = s\<lparr>microtasks := microtasks s @ [AfterPrevious r]\<rparr>)
   \<and> (interactionQueues s (posKey r) = None \<longrightarrow>
      worldManager (handleInteractionAsync r t s) =
        snd (processInteraction (agentPositions s) (worldManager s) r t) \<and>
      handled (handleInteractionAsync r t s) =
        handled s @ [(r, worldManager s,
                      fst (processInteraction (agentPositions s) (worldManager s) r t))] \<and>
      interactionQueues (handleInteractionAsync r t s) =
        (interactionQueues s)(posKey r \<mapsto> promisesMade s) \<and>
      microtasks (handleInteractionAsync r t s) =
        microtasks s @ [AfterCurrent r (promisesMade s)])
   \<and> (interactionQueues s (posKey r1) = None \<and> interactionQueues s (posKey r2) = None \<and>
        posKey r2 \<noteq> posKey r1 \<longrightarrow>
      handled (callAll [r1, r2] t s) =
        handled s @
        [(r1, worldManager s,
          fst (processInteraction (agentPositions s) (worldManager s) r1 t)),
         (r2, snd (processInteraction (agentPositions s) (worldManager s) r1 t),
          fst (processInteraction (agentPositions s)
                 (snd (processInteraction (agentPositions s) (worldManager s) r1 t)) r2 t))] \<and>
      interactionQueues (callAll [r1, r2] t s) (posKey r1) = Some (promisesMade s))
   \<and> (microtasks s = [] \<and> interactionQueues s (posKey r1) = None \<and> posKey r2 = posKey r1 \<longrightarrow>
      handled (callAll [r1, r2] t s) =
        handled s @ [(r1, worldManager s,
                      fst (processInteraction (agentPositions s) (worldManager s) r1 t))] \<and>
      handled (runMicrotasks 3 t (callAll [r1, r2] t s)) =
        handled s @
        [(r1, worldManager s,
          fst (processInteraction (agentPositions s) (worldManager s) r1 t)),
         (r2, snd (processInteraction (agentPositions s) (worldManager s) r1 t),
          fst (processInteraction (agentPositions s)
                 (snd (processInteraction (agentPositions s) (worldManager s) r1 t)) r2 t))] \<and>
      worldManager (runMicrotasks 3 t (callAll [r1, r2] t s)) =
        snd (processInteraction (agentPositions s)
               (snd (processInteraction (agentPositions s) (worldManager s) r1 t)) r2 t) \<and>
      microtasks (runMicrotasks 3 t (callAll [r1, r2] t s)) = [] \<and>
      interactionQueues (runMicrotasks 3 t (callAll [r1, r2] t s)) = interactionQueues s \<and>
      processingCount (runMicrotasks 3 t (callAll [r1, r2] t s)) = processingCount s)
   \<and> (microtasks s = [] \<and> interactionQueues s (posKey r1) = None \<and> posKey r2 = posKey r1 \<and>
        posKey r3 = posKey r1 \<longrightarrow>
      handled (callAll [r1, r2, r3] t s) =
        handled s @ [(r1, worldManager s,
                      fst (processInteraction (agentPositions s) (worldManager s) r1 t))] \<and>
      handled (runMicrotasks 5 t (callAll [r1, r2, r3] t s)) =
        handled s @
        [(r1, worldManager s,
          fst (processInteraction (agentPositions s) (worldManager s) r1 t)),
         (r2, snd (processInteraction (agentPositions s) (worldManager s) r1 t),
          fst (processInteraction (agentPositions s)
                 (snd (processInteraction (agentPositions s) (worldManager s) r1 t)) r2 t)),
         (r3, snd (processInteraction (agentPositions s)
                     (snd (processInteraction (agentPositions s) (worldManager s) r1 t)) r2 t),
          fst (processInteraction (agentPositions s)
                 (snd (processInteraction (agentPositions s)
                         (snd (processInteraction (agentPositions s) (worldManager s) r1 t))
                         r2 t)) r3 t))] \<and>
      worldManager (runMicrotasks 5 t (callAll [r1, r2, r3] t s)) =
        snd (processInteraction (agentPositions s)
               (snd (processInteraction (agentPositions s)
                       (snd (processInteraction (agentPositions s) (worldManager s) r1 t))
                       r2 t)) r3 t) \<and>
      microtasks (runMicrotasks 5 t (callAll [r1, r2, r3] t s)) = [] \<and>
      interactionQueues (runMicrotasks 5 t (callAll [r1, r2, r3] t s)) = interactionQueues s \<and>
      processingCount (runMicrotasks 5 t (callAll [r1, r2, r3] t s)) = processingCount s)
   \<and> (entryOwned s \<longrightarrow>
      entryOwned (runEvents es t s) \<and>
      (microtasks (runEvents es t s) = [] \<longrightarrow> interactionQueues (runEvents es t s) = Map.empty))
   \<and> (chained (agentPositions s) t w0 (handled s) (worldManager s) \<longrightarrow>
      chained (agentPositions s) t w0 (handled (runEvents es t s))
        (worldManager (runEvents es t s)))"
proof (intro conjI impI)
  assume "interactionQueues s (posKey r) \<noteq> None"
  then show "handleInteractionAsync r t s = s\<lparr>microtasks := microtasks s @ [AfterPrevious r]\<rparr>"
    by (auto simp: call_waits)
next
  assume n: "interactionQueues s (posKey r) = None"
  show "worldManager (handleInteractionAsync r t s) =
        snd (processInteraction (agentPositions s) (worldManager s) r t)"
    by (simp add: call_runs [OF n] startInteraction_fields)
  show "handled (handleInteractionAsync r t s) =
        handled s @ [(r, worldManager s,
                      fst (processInteraction (agentPositions s) (worldManager s) r t))]"
    by (simp add: call_runs [OF n] startInteraction_fields)
  show "interactionQueues (handleInteractionAsync r t s) =
        (interactionQueues s)(posKey r \<mapsto> promisesMade s)"
    by (simp add: call_runs [OF n] startInteraction_fields)
  show "microtasks (handleInteractionAsync r t s) =
        microtasks s @ [AfterCurrent r (promisesMade s)]"
    by (simp add: call_runs [OF n] startInteraction_fields)
next
  assume h: "interactionQueues s (posKey r1) = None \<and> interactionQueues s (posKey r2) = None \<and>
        posKey r2 \<noteq> posKey r1"
  note other = other_position [of s r1 r2 t]
  show "handled (callAll [r1, r2] t s) =
        handled s @
        [(r1, worldManager s,
          fst (processInteraction (agentPositions s) (worldManager s) r1 t)),
         (r2, snd (processInteraction (agentPositions s) (worldManager s) r1 t),
          fst (processInteraction (agentPositions s)
                 (snd (processInteraction (agentPositions s) (worldManager s) r1 t)) r2 t))]"
    using h by (intro other(1)) simp_all
  show "interactionQueues (callAll [r1, r2] t s) (posKey r1) = Some (promisesMade s)"
    using h by (intro other(2)) simp_all
next
  assume h: "microtasks s = [] \<and> interactionQueues s (posKey r1) = None \<and> posKey r2 = posKey r1"
  note two = two_requests [of s r1 r2 t]
  show "handled (callAll [r1, r2] t s) =
        handled s @ [(r1, worldManager s,
                      fst (processInteraction (agentPositions s) (worldManager s) r1 t))]"
    using h by (intro two(1)) simp_all
  show "handled (runMicrotasks 3 t (callAll [r1, r2] t s)) =
        handled s @
        [(r1, worldManager s,
          fst (processInteraction (agentPositions s) (worldManager s) r1 t)),
         (r2, snd (processInteraction (agentPositions s) (worldManager s) r1 t),
          fst (processInteraction (agentPositions s)
                 (snd (processInteraction (agentPositions s) (worldManager s) r1 t)) r2 t))]"
    using h by (intro two(2)) simp_all
  show "worldManager (runMicrotasks 3 t (callAll [r1, r2] t s)) =
        snd (processInteraction (agentPositions s)
               (snd (processInteraction (agentPositions s) (worldManager s) r1 t)) r2 t)"
    using h by (intro two(3)) simp_all
  show "microtasks (runMicrotasks 3 t (callAll [r1, r2] t s)) = []"
    using h by (intro two(4)) simp_all
  show "interactionQueues (runMicrotasks 3 t (callAll [r1, r2] t s)) = interactionQueues s"
    using h by (intro two(5)) simp_all
  show "processingCount (runMicrotasks 3 t (callAll [r1, r2] t s)) = processingCount s"
    using h by (intro two(6)) simp_all
next
  assume h: "microtasks s = [] \<and> interactionQueues s (posKey r1) = None \<and> posKey r2 = posKey r1 \<and>
        posKey r3 = posKey r1"
  note three = three_requests [of s r1 r2 r3 t]
  show "handled (callAll [r1, r2, r3] t s) =
        handled s @ [(r1, worldManager s,
                      fst (processInteraction (agentPositions s) (worldManager s) r1 t))]"
    using h by (intro three(1)) simp_all
  show "handled (runMicrotasks 5 t (callAll [r1, r2, r3] t s)) =
        handled s @
        [(r1, worldManager s,
          fst (processInteraction (agentPositions s) (worldManager s) r1 t)),
         (r2, snd (processInteraction (agentPositions s) (worldManager s) r1 t),
          fst (processInteraction (agentPositions s)
                 (snd (processInteraction (agentPositions s) (worldManager s) r1 t)) r2 t)),
         (r3, snd (processInteraction (agentPositions s)
                     (snd (processInteraction (agentPositions s) (worldManager s) r1 t)) r2 t),
          fst (processInteraction (agentPositions s)
                 (snd (processInteraction (agentPositions s)
                         (snd (processInteraction (agentPositions s) (worldManager s) r1 t))
                         r2 t)) r3 t))]"
    using h by (intro three(2)) simp_all
  show "worldManager (runMicrotasks 5 t (callAll [r1, r2, r3] t s)) =
        snd (processInteraction (agentPositions s)
               (snd (processInteraction (agentPositions s)
                       (snd (processInteraction (agentPositions s) (worldManager s) r1 t))
                       r2 t)) r3 t)"
    using h by (intro three(3)) simp_all
  show "microtasks (runMicrotasks 5 t (callAll [r1, r2, r3] t s)) = []"
    using h by (intro three(4)) simp_all
  show "interactionQueues (runMicrotasks 5 t (callAll [r1, r2, r3] t s)) = interactionQueues s"
    using h by (intro three(5)) simp_all
  show "processingCount (runMicrotasks 5 t (callAll [r1, r2, r3] t s)) = processingCount s"
    using h by (intro three(6)) simp_all
next
  assume "entryOwned s"
  then show "entryOwned (runEvents es t s)" by (rule entryOwned_runEvents)
next
  assume "entryOwned s" and "microtasks (runEvents es t s) = []"
  then show "interactionQueues (runEvents es t s) = Map.empty"
    by (intro ext entryOwned_quiet [OF entryOwned_runEvents])
next
  assume "chained (agentPositions s) t w0 (handled s) (worldManager s)"
  then show "chained (agentPositions s) t w0 (handled (runEvents es t s))
        (worldManager (runEvents es t s))"
    by (rule chained_runEvents)
qed

theorem same_position_requests_in_turn_witness:
  "microtasks exampleManager = [] \<and>
   interactionQueues exampleManager (posKey (exampleRequest TILL)) = None \<and>
   posKey (exampleRequest PLANT) = posKey (exampleRequest TILL) \<and>
   posKey (exampleRequest InteractionType.WATER) = posKey (exampleRequest TILL) \<and>
   entryOwned exampleManager \<and>
   chained examplePlayers ''t'' exampleWorld (handled exampleManager) (worldManager exampleManager) \<and>
   map (entrySummary (mkPos 0 1))
     (handled (callAll [exampleRequest TILL, exampleRequest PLANT,
                        exampleRequest InteractionType.WATER] ''t'' exampleManager)) =
     [(TILL, GRASS, 0, TillDone)] \<and>
   map (entrySummary (mkPos 0 1))
     (handled (runMicrotasks 5 ''t''
        (callAll [exampleRequest TILL, exampleRequest PLANT,
                  exampleRequest InteractionType.WATER] ''t'' exampleManager))) =
     [(TILL, GRASS, 0, TillDone), (PLANT, FARMLAND, 1, PlantDone),
      (InteractionType.WATER, FARMLAND, 2, WaterDone)] \<and>
   getTileVersion (worldManager (runMicrotasks 5 ''t''
        (callAll [exampleRequest TILL, exampleRequest PLANT,
                  exampleRequest InteractionType.WATER] ''t'' exampleManager))) (mkPos 0 1) = 3 \<and>
   microtasks (runMicrotasks 5 ''t''
        (callAll [exampleRequest TILL, exampleRequest PLANT,
                  exampleRequest InteractionType.WATER] ''t'' exampleManager)) = [] \<and>
   interactionQueues (runMicrotasks 5 ''t''
        (callAll [exampleRequest TILL, exampleRequest PLANT,
                  exampleRequest InteractionType.WATER] ''t'' exampleManager)) = Map.empty \<and>
   processingCount (runMicrotasks 5 ''t''
        (callAll [exampleRequest TILL, exampleRequest PLANT,
                  exampleRequest InteractionType.WATER] ''t'' exampleManager)) = 0 \<and>
   map (entrySummary (mkPos 0 1))
     (handled (runMicrotasks 3 ''t''
        (callAll [exampleRequest TILL, exampleRequest PLANT] ''t'' exampleManager))) =
     [(TILL, GRASS, 0, TillDone), (PLANT, FARMLAND, 1, PlantDone)] \<and>
   interactionQueues exampleManager (posKey ((exampleRequest TILL)\<lparr>target := mkPos 1 1\<rparr>)) = None \<and>
   posKey ((exampleRequest TILL)\<lparr>target := mkPos 1 1\<rparr>) \<noteq> posKey (exampleRequest TILL) \<and>
   map (entrySummary (mkPos 1 1))
     (handled (callAll [exampleRequest TILL, (exampleRequest TILL)\<lparr>target := mkPos 1 1\<rparr>] ''t''
        exampleManager)) =
     [(TILL, GRASS, 3, TillDone), (TILL, GRASS, 3, TillDone)] \<and>
   interactionQueues (handleInteractionAsync (exampleRequest TILL) ''t'' exampleManager)
     (posKey (exampleRequest PLANT)) = Some 0 \<and>
   microtasks (handleInteractionAsync (exampleRequest PLANT) ''t''
     (handleInteractionAsync (exampleRequest TILL) ''t'' exampleManager)) =
     [AfterCurrent (exampleRequest TILL) 0, AfterPrevious (exampleRequest PLANT)] \<and>
   entryOwned (runEvents [Call (exampleRequest TILL), Microtask, Call (exampleRequest PLANT)] ''t''
     exampleManager) \<and>
   interactionQueues (runEvents [Call (exampleRequest TILL), Call (exampleRequest PLANT),
      Microtask, Microtask, Microtask] ''t'' exampleManager) = Map.empty \<and>
   chained examplePlayers ''t'' exampleWorld
     (handled (runEvents [Call (exampleRequest TILL), Microtask, Call (exampleRequest PLANT)] ''t''
        exampleManager))
     (worldManager (runEvents [Call (exampleRequest TILL), Microtask, Call (exampleRequest PLANT)]
        ''t'' exampleManager))"
proof -
  have keys: "posKey (exampleRequest PLANT) = posKey (exampleRequest TILL)"
    "posKey (exampleRequest InteractionType.WATER) = posKey (exampleRequest TILL)"
    "posKey ((exampleRequest TILL)\<lparr>target := mkPos 1 1\<rparr>) \<noteq> posKey (exampleRequest TILL)"
    by (simp_all add: posKey_def exampleRequest_def mkPos_def)
  have rest: "microtasks exampleManager = []"
    "interactionQueues exampleManager (posKey (exampleRequest TILL)) = None"
    "interactionQueues exampleManager (posKey ((exampleRequest TILL)\<lparr>target := mkPos 1 1\<rparr>)) = None"
    "entryOwned exampleManager"
    "chained examplePlayers ''t'' exampleWorld (handled exampleManager) (worldManager exampleManager)"
    by (simp_all add: exampleManager_def entryOwned_def)
  have fields: "agentPositions exampleManager = examplePlayers"
    "worldManager exampleManager = exampleWorld"
    "handled exampleManager = []" "processingCount exampleManager = 0"
    "interactionQueues exampleManager = Map.empty" "promisesMade exampleManager = 0"
    by (simp_all add: exampleManager_def)
  note a = same_position_requests_in_turn
    [of exampleManager "exampleRequest TILL" "''t''" "exampleRequest TILL" "exampleRequest PLANT"
        "exampleRequest InteractionType.WATER"
        "[Call (exampleRequest TILL), Microtask, Call (exampleRequest PLANT)]" exampleWorld]
  have turn:
    "map (entrySummary (mkPos 0 1))
     (handled (callAll [exampleRequest TILL, exampleRequest PLANT,
                        exampleRequest InteractionType.WATER] ''t'' exampleManager)) =
     [(TILL, GRASS, 0, TillDone)]"
    "map (entrySummary (mkPos 0 1))
     (handled (runMicrotasks 5 ''t''
        (callAll [exampleRequest TILL, exampleRequest PLANT,
                  exampleRequest InteractionType.WATER] ''t'' exampleManager))) =
     [(TILL, GRASS, 0, TillDone), (PLANT, FARMLAND, 1, PlantDone),
      (InteractionType.WATER, FARMLAND, 2, WaterDone)]"
    "getTileVersion (worldManager (runMicrotasks 5 ''t''
        (callAll [exampleRequest TILL, exampleRequest PLANT,
                  exampleRequest InteractionType.WATER] ''t'' exampleManager))) (mkPos 0 1) = 3"
    "microtasks (runMicrotasks 5 ''t''
        (callAll [exampleRequest TILL, exampleRequest PLANT,
                  exampleRequest InteractionType.WATER] ''t'' exampleManager)) = []"
    "interactionQueues (runMicrotasks 5 ''t''
        (callAll [exampleRequest TILL, exampleRequest PLANT,
                  exampleRequest InteractionType.WATER] ''t'' exampleManager)) = Map.empty"
    "processingCount (runMicrotasks 5 ''t''
        (callAll [exampleRequest TILL, exampleRequest PLANT,
                  exampleRequest InteractionType.WATER] ''t'' exampleManager)) = 0"
    "map (entrySummary (mkPos 0 1))
     (handled (runMicrotasks 3 ''t''
        (callAll [exampleRequest TILL, exampleRequest PLANT] ''t'' exampleManager))) =
     [(TILL, GRASS, 0, TillDone), (PLANT, FARMLAND, 1, PlantDone)]"
    "interactionQueues (handleInteractionAsync (exampleRequest TILL) ''t'' exampleManager)
     (posKey (exampleRequest PLANT)) = Some 0"
    "entryOwned (runEvents [Call (exampleRequest TILL), Microtask, Call (exampleRequest PLANT)] ''t''
     exampleManager)"
    "chained examplePlayers ''t'' exampleWorld
     (handled (runEvents [Call (exampleRequest TILL), Microtask, Call (exampleRequest PLANT)] ''t''
        exampleManager))
     (worldManager (runEvents [Call (exampleRequest TILL), Microtask, Call (exampleRequest PLANT)]
        ''t'' exampleManager))"
    using a keys rest
    by (simp_all add: fields entrySummary_def interaction_defs ex_floor)
  note b = same_position_requests_in_turn
    [of "handleInteractionAsync (exampleRequest TILL) ''t'' exampleManager" "exampleRequest PLANT"
        "''t''" "exampleRequest TILL" "exampleRequest PLANT"
        "exampleRequest InteractionType.WATER" "[]" exampleWorld]
  have busy: "microtasks (handleInteractionAsync (exampleRequest PLANT) ''t''
     (handleInteractionAsync (exampleRequest TILL) ''t'' exampleManager)) =
     [AfterCurrent (exampleRequest TILL) 0, AfterPrevious (exampleRequest PLANT)]"
    using a b turn(8) keys rest by (simp add: fields)
  note c = same_position_requests_in_turn
    [of exampleManager "exampleRequest TILL" "''t''" "exampleRequest TILL" "exampleRequest PLANT"
        "exampleRequest InteractionType.WATER"
        "[Call (exampleRequest TILL), Call (exampleRequest PLANT),
      Microtask, Microtask, Microtask]" exampleWorld]
  have quiet: "microtasks (runEvents [Call (exampleRequest TILL), Call (exampleRequest PLANT),
      Microtask, Microtask, Microtask] ''t'' exampleManager) = []"
    using keys
    by (simp add: handleInteractionAsync_def startInteraction_def runMicrotask_def
        finishInteraction_def exampleManager_def split_def Let_def)
  have cleaned: "interactionQueues (runEvents [Call (exampleRequest TILL), Call (exampleRequest PLANT),
      Microtask, Microtask, Microtask] ''t'' exampleManager) = Map.empty"
    using c rest quiet by blast
  note d = same_position_requests_in_turn
    [of exampleManager "exampleRequest TILL" "''t''" "exampleRequest TILL"
        "(exampleRequest TILL)\<lparr>target := mkPos 1 1\<rparr>"
        "exampleRequest InteractionType.WATER" "[]" exampleWorld]
  have apart: "map (entrySummary (mkPos 1 1))
     (handled (callAll [exampleRequest TILL, (exampleRequest TILL)\<lparr>target := mkPos 1 1\<rparr>] ''t''
        exampleManager)) =
     [(TILL, GRASS, 3, TillDone), (TILL, GRASS, 3, TillDone)]"
    using d keys rest
    by (simp add: fields entrySummary_def interaction_defs ex_floor)
  show ?thesis
    using keys rest turn busy cleaned apart by simp
qed

end
